theory Spec2Isabelle
  imports Complex_Main "HOL-Library.Word" "HOL-Library.Sublist"
begin

unbundle bit_operations_syntax

section \<open>Data model (types.ts)\<close>

text \<open>
  Strings are lists of 8-bit characters: a \<open>char\<close> is a code unit below 256, which is
  all that the binary strings of \<open>btoa\<close>/\<open>atob\<close> and the ASCII texts of the program need.
\<close>

datatype DriverState = MONITORING | DROWSY | UNRESPONSIVE | ENGAGED

datatype MiraState = IDLE | LISTENING | THINKING | SPEAKING

datatype Speaker = USER | MIRA

record TranscriptionEntry =
  speaker :: Speaker
  text_of :: string

record Location =
  latitude :: real
  longitude :: real

record Song =
  title :: string
  artist :: string
  albumArtUrl :: string

datatype error =
    TypeError               \<comment> \<open>reading a property of \<open>undefined\<close>\<close>
  | InvalidCharacterError   \<comment> \<open>\<open>atob\<close> on a string that is not base64\<close>
  | RangeError              \<comment> \<open>\<open>new Int16Array(buffer)\<close> on an odd byte length\<close>
  | NotSupportedError       \<comment> \<open>\<open>createBuffer\<close> with a frame count of zero\<close>

section \<open>Double-precision numbers\<close>

text \<open>
  A JavaScript number is an IEEE 754 double. A finite double is modelled by the real number
  it denotes; the other values are the two infinities and NaN. \<open>fl\<close> rounds a real number
  to a double: to the nearest one, ties to the even significand, with 53 bits of
  significand, the subnormal spacing below \<open>2^-1022\<close> and overflow to an infinity from
  \<open>2^1024\<close> on. Every arithmetic operation rounds its exact result with \<open>fl\<close>; \<open>**\<close> and
  \<open>Math.sqrt\<close> are taken as correctly rounded, which ECMAScript leaves to the engine.
  The sign of a zero is not modelled. It can show only in a division by zero, and the
  zero divisors of this program are results of a square root, which are \<open>+0\<close>.
\<close>

datatype number = Fin real | PosInf | NegInf | NaN

definition rne :: "real \<Rightarrow> int" where
  "rne y =
     (let f = \<lfloor>y\<rfloor>
      in if y - of_int f < 1/2 then f
         else if 1/2 < y - of_int f then f + 1
         else if even f then f else f + 1)"

definition pow2 :: "int \<Rightarrow> real" where
  "pow2 k = (if 0 \<le> k then 2 ^ nat k else 1 / 2 ^ nat (- k))"

definition expo :: "real \<Rightarrow> int" where
  "expo x = max \<lfloor>log 2 \<bar>x\<bar>\<rfloor> (- 1022)"

definition ulp :: "real \<Rightarrow> real" where
  "ulp x = pow2 (expo x - 52)"

definition rd :: "real \<Rightarrow> real" where
  "rd x = (if x = 0 then 0 else of_int (rne (x / ulp x)) * ulp x)"

definition fl :: "real \<Rightarrow> number" where
  "fl x =
     (if pow2 1024 \<le> \<bar>rd x\<bar> then (if 0 < x then PosInf else NegInf)
      else Fin (rd x))"

fun fneg :: "number \<Rightarrow> number" where
  "fneg (Fin a) = Fin (- a)"
| "fneg PosInf = NegInf"
| "fneg NegInf = PosInf"
| "fneg NaN = NaN"

fun fadd :: "number \<Rightarrow> number \<Rightarrow> number" where
  "fadd (Fin a) (Fin b) = fl (a + b)"
| "fadd NaN _ = NaN"
| "fadd _ NaN = NaN"
| "fadd PosInf NegInf = NaN"
| "fadd NegInf PosInf = NaN"
| "fadd PosInf _ = PosInf"
| "fadd _ PosInf = PosInf"
| "fadd NegInf _ = NegInf"
| "fadd _ NegInf = NegInf"

definition fsub :: "number \<Rightarrow> number \<Rightarrow> number" where
  "fsub a b = fadd a (fneg b)"

fun fmul :: "number \<Rightarrow> number \<Rightarrow> number" where
  "fmul (Fin a) (Fin b) = fl (a * b)"
| "fmul NaN _ = NaN"
| "fmul _ NaN = NaN"
| "fmul (Fin a) PosInf = (if a = 0 then NaN else if 0 < a then PosInf else NegInf)"
| "fmul (Fin a) NegInf = (if a = 0 then NaN else if 0 < a then NegInf else PosInf)"
| "fmul PosInf (Fin b) = (if b = 0 then NaN else if 0 < b then PosInf else NegInf)"
| "fmul NegInf (Fin b) = (if b = 0 then NaN else if 0 < b then NegInf else PosInf)"
| "fmul PosInf PosInf = PosInf"
| "fmul PosInf NegInf = NegInf"
| "fmul NegInf PosInf = NegInf"
| "fmul NegInf NegInf = PosInf"

definition fsquare :: "number \<Rightarrow> number" where
  "fsquare a = fmul a a"

fun fdiv :: "number \<Rightarrow> number \<Rightarrow> number" where
  "fdiv (Fin a) (Fin b) =
     (if b \<noteq> 0 then fl (a / b)
      else if 0 < a then PosInf
      else if a < 0 then NegInf
      else NaN)"
| "fdiv NaN _ = NaN"
| "fdiv _ NaN = NaN"
| "fdiv (Fin a) _ = Fin 0"
| "fdiv PosInf (Fin b) = (if 0 \<le> b then PosInf else NegInf)"
| "fdiv NegInf (Fin b) = (if 0 \<le> b then NegInf else PosInf)"
| "fdiv PosInf _ = NaN"
| "fdiv NegInf _ = NaN"

fun fsqrt :: "number \<Rightarrow> number" where
  "fsqrt (Fin a) = (if a < 0 then NaN else fl (sqrt a))"
| "fsqrt PosInf = PosInf"
| "fsqrt _ = NaN"

fun fless :: "number \<Rightarrow> number \<Rightarrow> bool" where
  "fless (Fin a) (Fin b) = (a < b)"
| "fless NaN _ = False"
| "fless _ NaN = False"
| "fless NegInf NegInf = False"
| "fless NegInf _ = True"
| "fless PosInf _ = False"
| "fless (Fin a) PosInf = True"
| "fless (Fin a) NegInf = False"

fun fle :: "number \<Rightarrow> number \<Rightarrow> bool" where
  "fle (Fin a) (Fin b) = (a \<le> b)"
| "fle NaN _ = False"
| "fle _ NaN = False"
| "fle NegInf _ = True"
| "fle _ PosInf = True"
| "fle (Fin a) NegInf = False"
| "fle PosInf _ = False"

fun fmax :: "number \<Rightarrow> number \<Rightarrow> number" where
  "fmax (Fin a) (Fin b) = Fin (max a b)"
| "fmax NaN _ = NaN"
| "fmax _ NaN = NaN"
| "fmax PosInf _ = PosInf"
| "fmax _ PosInf = PosInf"
| "fmax NegInf b = b"
| "fmax a NegInf = a"


section \<open>utils/fatigueDetection.ts\<close>

record Point =
  px :: number
  py :: number

text \<open>
  \<open>eyeLandmarks[i]\<close> is \<open>undefined\<close> beyond the end of the array, and reading \<open>.x\<close> of
  \<open>undefined\<close> throws a TypeError. An array element is therefore a \<open>Point option\<close>.
\<close>

definition at_index :: "'a list \<Rightarrow> nat \<Rightarrow> 'a option" where
  "at_index xs i = (if i < length xs then Some (xs ! i) else None)"

fun getEuclideanDistance :: "Point option \<Rightarrow> Point option \<Rightarrow> error + number" where
  "getEuclideanDistance (Some p1) (Some p2) =
     Inr (fsqrt (fadd (fsquare (fsub (px p1) (px p2))) (fsquare (fsub (py p1) (py p2)))))"
| "getEuclideanDistance _ _ = Inl TypeError"

definition getEyeAspectRatio :: "Point list \<Rightarrow> error + number" where
  "getEyeAspectRatio eyeLandmarks =
     (let p1 = at_index eyeLandmarks 0;
          p2 = at_index eyeLandmarks 1;
          p3 = at_index eyeLandmarks 2;
          p4 = at_index eyeLandmarks 3;
          p5 = at_index eyeLandmarks 4;
          p6 = at_index eyeLandmarks 5
      in case getEuclideanDistance p2 p6 of Inl e \<Rightarrow> Inl e
         | Inr verticalDist1 \<Rightarrow>
       (case getEuclideanDistance p3 p5 of Inl e \<Rightarrow> Inl e
         | Inr verticalDist2 \<Rightarrow>
       (case getEuclideanDistance p1 p4 of Inl e \<Rightarrow> Inl e
         | Inr horizontalDist \<Rightarrow>
            Inr (fdiv (fadd verticalDist1 verticalDist2) (fmul (Fin 2) horizontalDist)))))"

text \<open>
  The two transformations of the specification, carried out in doubles as the program
  would: the same offset added to every point, every coordinate multiplied by the same
  factor.
\<close>

definition translate :: "number \<Rightarrow> number \<Rightarrow> Point \<Rightarrow> Point" where
  "translate dx dy p = \<lparr>px = fadd (px p) dx, py = fadd (py p) dy\<rparr>"

definition scale :: "number \<Rightarrow> Point \<Rightarrow> Point" where
  "scale k p = \<lparr>px = fmul k (px p), py = fmul k (py p)\<rparr>"

text \<open>
  Conditions under which the transformations commute with the rounding. A translation is
  exact when no coordinate is rounded by the addition of the offset. A set of landmarks
  is scalable by \<open>2^n\<close> when its coordinates are finite doubles and every coordinate and
  every difference of two coordinates is zero or lies between \<open>2^-500\<close> and \<open>2^500\<close> in
  magnitude, before and after the scaling: then no square underflows or overflows.
\<close>

definition val :: "number \<Rightarrow> real" where
  "val a = (case a of Fin x \<Rightarrow> x | _ \<Rightarrow> 0)"

definition isFinite :: "number \<Rightarrow> bool" where
  "isFinite a = (case a of Fin x \<Rightarrow> fl x = Fin x | _ \<Rightarrow> False)"

definition inRange :: "int \<Rightarrow> int \<Rightarrow> int \<Rightarrow> real \<Rightarrow> bool" where
  "inRange n lo hi x =
     (x = 0 \<or> (pow2 lo \<le> \<bar>x\<bar> \<and> \<bar>x\<bar> \<le> pow2 hi
               \<and> pow2 lo \<le> pow2 n * \<bar>x\<bar> \<and> pow2 n * \<bar>x\<bar> \<le> pow2 hi))"

definition exactlyTranslated :: "real \<Rightarrow> real \<Rightarrow> Point \<Rightarrow> bool" where
  "exactlyTranslated dx dy p =
     (translate (Fin dx) (Fin dy) p
        = \<lparr>px = Fin (val (px p) + dx), py = Fin (val (py p) + dy)\<rparr>)"

definition scalable :: "int \<Rightarrow> Point list \<Rightarrow> bool" where
  "scalable n eye =
     (list_all (\<lambda>p. isFinite (px p) \<and> isFinite (py p)
                     \<and> inRange n (- 500) 500 (val (px p))
                     \<and> inRange n (- 500) 500 (val (py p))) eye
      \<and> list_all (\<lambda>p. list_all (\<lambda>q.
             inRange n (- 500) 500 (val (px p) - val (px q))
             \<and> inRange n (- 500) 500 (val (py p) - val (py q))) eye) eye)"

text \<open>
  The formula of the specification, \<open>EAR = (dist(p2,p6) + dist(p3,p5)) / (2 * dist(p1,p4))\<close>,
  for six points and in double arithmetic.
\<close>

definition dist_spec :: "Point \<Rightarrow> Point \<Rightarrow> number" where
  "dist_spec p q = fsqrt (fadd (fsquare (fsub (px p) (px q))) (fsquare (fsub (py p) (py q))))"

definition EAR_spec :: "Point list \<Rightarrow> number" where
  "EAR_spec pts =
     fdiv (fadd (dist_spec (pts ! 1) (pts ! 5)) (dist_spec (pts ! 2) (pts ! 4)))
          (fmul (Fin 2) (dist_spec (pts ! 0) (pts ! 3)))"


section \<open>Audio helpers: encode, decode, decodeAudioData\<close>

type_synonym byte = "8 word"

subsection \<open>The browser's btoa and atob\<close>

text \<open>
  \<open>btoa\<close> and \<open>atob\<close> are functions of the browser. They are modelled after the HTML
  standard: \<open>btoa\<close> is the base64 encoding of RFC 4648 with padding, \<open>atob\<close> the
  "forgiving-base64 decode" (strip ASCII whitespace, strip one or two trailing \<open>=\<close> when
  the length is a multiple of four, fail on a length of 1 modulo 4 or on a character
  outside the alphabet, then read six bits per character and drop the incomplete byte).
\<close>

definition b64chars :: string where
  "b64chars = ''ABCDEFGHIJKLMNOPQRSTUVWXYZabcdefghijklmnopqrstuvwxyz0123456789+/''"

definition b64enc :: "nat \<Rightarrow> char" where
  "b64enc i = b64chars ! i"

fun index_of :: "'a list \<Rightarrow> 'a \<Rightarrow> nat option" where
  "index_of [] c = None"
| "index_of (a # as) c =
     (if a = c then Some 0 else map_option Suc (index_of as c))"

definition b64dec :: "char \<Rightarrow> nat option" where
  "b64dec c = index_of b64chars c"

fun sextets :: "nat list \<Rightarrow> nat list" where
  "sextets [] = []"
| "sextets [a] = [a div 4, (a mod 4) * 16]"
| "sextets [a, b] = [a div 4, (a mod 4) * 16 + b div 16, (b mod 16) * 4]"
| "sextets (a # b # c # rest) =
     [a div 4, (a mod 4) * 16 + b div 16, (b mod 16) * 4 + c div 64, c mod 64]
       @ sextets rest"

definition btoa :: "string \<Rightarrow> string" where
  "btoa binary =
     map b64enc (sextets (map of_char binary))
       @ replicate ((3 - length binary mod 3) mod 3) (CHR ''='')"

definition isAsciiWhitespace :: "char \<Rightarrow> bool" where
  "isAsciiWhitespace c = (of_char c \<in> {9, 10, 12, 13, 32 :: nat})"

definition stripPadding :: "string \<Rightarrow> string" where
  "stripPadding d =
     (if length d mod 4 = 0 then
        (case rev d of
           a # b # r \<Rightarrow>
             if a = CHR ''='' \<and> b = CHR ''='' then rev r
             else if a = CHR ''='' then rev (b # r)
             else d
         | _ \<Rightarrow> d)
      else d)"

fun octets :: "nat list \<Rightarrow> nat list" where
  "octets (s1 # s2 # s3 # s4 # rest) =
     [s1 * 4 + s2 div 16, (s2 mod 16) * 16 + s3 div 4, (s3 mod 4) * 64 + s4]
       @ octets rest"
| "octets [s1, s2, s3] = [s1 * 4 + s2 div 16, (s2 mod 16) * 16 + s3 div 4]"
| "octets [s1, s2] = [s1 * 4 + s2 div 16]"
| "octets _ = []"

fun those_list :: "'a option list \<Rightarrow> 'a list option" where
  "those_list [] = Some []"
| "those_list (None # _) = None"
| "those_list (Some a # as) = map_option ((#) a) (those_list as)"

definition atob :: "string \<Rightarrow> error + string" where
  "atob data =
     (let d = stripPadding (filter (\<lambda>c. \<not> isAsciiWhitespace c) data)
      in if length d mod 4 = 1 then Inl InvalidCharacterError
         else case those_list (map b64dec d) of
                None \<Rightarrow> Inl InvalidCharacterError
              | Some ss \<Rightarrow> Inr (map char_of (octets ss)))"

subsection \<open>encode and decode\<close>

text \<open>
  \<open>encode\<close> appends \<open>String.fromCharCode(bytes[i])\<close> for every index and hands the string
  to \<open>btoa\<close>; \<open>decode\<close> stores \<open>charCodeAt(i)\<close> of the \<open>atob\<close> result into a \<open>Uint8Array\<close>.
\<close>

definition encode :: "byte list \<Rightarrow> string" where
  "encode bytes = btoa (map (\<lambda>b. char_of (unat b)) bytes)"

definition decode :: "string \<Rightarrow> error + byte list" where
  "decode base64 =
     (case atob base64 of
        Inl e \<Rightarrow> Inl e
      | Inr binaryString \<Rightarrow> Inr (map (\<lambda>c. of_nat (of_char c)) binaryString))"


subsection \<open>decodeAudioData\<close>

text \<open>
  \<open>new Int16Array(data.buffer)\<close> reads the bytes as little-endian signed 16-bit samples and
  throws a RangeError on an odd byte length; \<open>createBuffer\<close> throws a NotSupportedError for
  zero channels or zero frames. The duration of a buffer is its length over its sample
  rate.
\<close>

record AudioBuffer =
  channelData :: "real list list"
  length_ab :: nat
  sampleRate_ab :: real

definition duration :: "AudioBuffer \<Rightarrow> number" where
  "duration b = fdiv (Fin (real (length_ab b))) (Fin (sampleRate_ab b))"

fun int16s :: "byte list \<Rightarrow> int list" where
  "int16s (lo # hi # rest) =
     sint (push_bit 8 (ucast hi :: 16 word) OR (ucast lo :: 16 word)) # int16s rest"
| "int16s _ = []"

definition decodeAudioData :: "byte list \<Rightarrow> real \<Rightarrow> nat \<Rightarrow> error + AudioBuffer" where
  "decodeAudioData data sampleRate numChannels =
     (if odd (length data) then Inl RangeError
      else
        let dataInt16 = int16s data;
            frameCount = length dataInt16 div numChannels
        in if numChannels = 0 \<or> frameCount = 0 then Inl NotSupportedError
           else Inr \<lparr>channelData =
                       map (\<lambda>channel.
                              map (\<lambda>i. real_of_int (dataInt16 ! (i * numChannels + channel)) / 32768)
                                [0..<frameCount])
                         [0..<numChannels],
                     length_ab = frameCount,
                     sampleRate_ab = sampleRate\<rparr>)"


section \<open>The App component\<close>

subsection \<open>State\<close>

text \<open>
  One record holds the component's \<open>useState\<close> values, its refs, the two transcript
  accumulators of the live session, and a trace of what the component does to the outside:
  the state requests of the detection loop, the emergency alerts, the messages sent to
  the session, the scheduled audio sources (start time and duration), the number of live
  sessions started, and the errors that escape an asynchronous callback.
  \<open>emergencyTimerRef\<close> is true while the one-second interval it names is running;
  \<open>aiRef\<close>, \<open>sessionPromiseRef\<close> and \<open>outputAudioContextRef\<close> are true when the ref is
  not null. \<open>sessionLocation\<close> is the \<open>location\<close> that the session's callbacks see: they
  close over the \<open>mockFunctions\<close> of the render that started the session.
  \<open>locationStamp\<close> counts the calls of \<open>setLocation\<close>: each call stores a new object, and
  React compares an object in a dependency list by identity. \<open>connecting\<close> counts the
  sessions that were started and are not connected yet.
\<close>

datatype Request = RequestDrowsy | RequestUnresponsive

datatype jsvalue = Str string | Bool bool | Obj "(string \<times> string) list"

datatype Outbound =
    SendText string
  | SendToolResponse string string jsvalue

record App =
  driverState :: DriverState
  miraState :: MiraState
  permissionsGranted :: bool
  modelsLoaded :: bool
  transcriptions :: "TranscriptionEntry list"
  location :: "Location option"
  locationStamp :: nat
  isEmergency :: bool
  emergencyCountdown :: int
  currentSong :: "Song option"
  analyserNode :: bool
  aiRef :: bool
  sessionPromiseRef :: bool
  outputAudioContextRef :: bool
  nextAudioStartTimeRef :: number
  emergencyTimerRef :: bool
  eyeClosedFramesRef :: nat
  noFaceFramesRef :: nat
  currentInputTranscription :: string
  currentOutputTranscription :: string
  sessionLocation :: "Location option"
  requested :: "Request list"
  alerts :: "Location option list"
  sent :: "Outbound list"
  started :: "(number \<times> number) list"
  liveSessions :: nat
  connecting :: nat
  unhandled :: "error list"

definition initialApp :: "bool \<Rightarrow> App" where
  "initialApp apiKey =
     \<lparr>driverState = MONITORING, miraState = IDLE, permissionsGranted = False,
      modelsLoaded = False, transcriptions = [], location = None, locationStamp = 0,
      isEmergency = False,
      emergencyCountdown = 15, currentSong = None, analyserNode = False,
      aiRef = apiKey, sessionPromiseRef = False, outputAudioContextRef = False,
      nextAudioStartTimeRef = Fin 0, emergencyTimerRef = False, eyeClosedFramesRef = 0,
      noFaceFramesRef = 0, currentInputTranscription = [], currentOutputTranscription = [],
      sessionLocation = None, requested = [], alerts = [], sent = [], started = [],
      liveSessions = 0, connecting = 0, unhandled = []\<rparr>"

definition EAR_THRESHOLD :: number where
  "EAR_THRESHOLD = Fin 0.25"

definition CONSECUTIVE_FRAMES_DROWSY :: nat where
  "CONSECUTIVE_FRAMES_DROWSY = 10"

definition CONSECUTIVE_FRAMES_UNRESPONSIVE :: nat where
  "CONSECUTIVE_FRAMES_UNRESPONSIVE = 25"

subsection \<open>Fatigue detection loop\<close>

text \<open>
  One run of the 200 ms interval callback. The detector's answer is the input: the video
  is paused, no face was found, or a face with its two eye outlines. A throw of
  \<open>getEyeAspectRatio\<close> ends the callback where it stands (the callback is \<open>async\<close>, so the
  error is a rejected promise and the interval goes on).
\<close>

datatype Detection = VideoPaused | NoFace | Face "Point list" "Point list"

definition detectionCallback :: "Detection \<Rightarrow> App \<Rightarrow> App" where
  "detectionCallback detections s =
     (case detections of
        VideoPaused \<Rightarrow> s
      | Face leftEye rightEye \<Rightarrow>
          let s1 = s\<lparr>noFaceFramesRef := 0\<rparr>
          in (case getEyeAspectRatio leftEye of
                Inl e \<Rightarrow> s1\<lparr>unhandled := unhandled s1 @ [e]\<rparr>
              | Inr leftEAR \<Rightarrow>
            (case getEyeAspectRatio rightEye of
                Inl e \<Rightarrow> s1\<lparr>unhandled := unhandled s1 @ [e]\<rparr>
              | Inr rightEAR \<Rightarrow>
                  let ear = fdiv (fadd leftEAR rightEAR) (Fin 2);
                      s2 = (if fless ear EAR_THRESHOLD
                            then s1\<lparr>eyeClosedFramesRef := eyeClosedFramesRef s1 + 1\<rparr>
                            else s1\<lparr>eyeClosedFramesRef := 0\<rparr>)
                  in if eyeClosedFramesRef s2 > CONSECUTIVE_FRAMES_DROWSY
                     then s2\<lparr>driverState := DROWSY,
                             requested := requested s2 @ [RequestDrowsy]\<rparr>
                     else s2))
      | NoFace \<Rightarrow>
          let s1 = s\<lparr>noFaceFramesRef := noFaceFramesRef s + 1\<rparr>
          in if noFaceFramesRef s1 > CONSECUTIVE_FRAMES_UNRESPONSIVE
             then s1\<lparr>driverState := UNRESPONSIVE,
                     requested := requested s1 @ [RequestUnresponsive]\<rparr>
             else s1)"

text \<open>A face sample with closed eyes: both ratios are computed and their mean is below the threshold.\<close>

definition eyesClosed :: "Point list \<Rightarrow> Point list \<Rightarrow> bool" where
  "eyesClosed leftEye rightEye =
     (case (getEyeAspectRatio leftEye, getEyeAspectRatio rightEye) of
        (Inr leftEAR, Inr rightEAR) \<Rightarrow>
          fless (fdiv (fadd leftEAR rightEAR) (Fin 2)) EAR_THRESHOLD
      | _ \<Rightarrow> False)"

subsection \<open>Escalation and emergency countdown\<close>

text \<open>
  \<open>startLiveSession\<close> up to its first \<open>await\<close>. The first argument is the render whose
  values the callback closed over, the second the state being updated.
\<close>

definition startLiveSession :: "App \<Rightarrow> App \<Rightarrow> App" where
  "startLiveSession r p =
     (if \<not> permissionsGranted r \<or> \<not> aiRef p then p
      else p\<lparr>miraState := LISTENING, outputAudioContextRef := True, analyserNode := True,
             currentInputTranscription := [], currentOutputTranscription := [],
             sessionLocation := location r, liveSessions := Suc (liveSessions p),
             connecting := Suc (connecting p)\<rparr>)"

definition unresponsiveText :: string where
  "unresponsiveText = ''The driver seems unresponsive. Please state clearly if you are okay. An emergency contact will be notified in 15 seconds if there is no response.''"

definition drowsyText :: string where
  "drowsyText = ''The driver seems drowsy. Start a short, engaging conversation to help them stay alert.''"

text \<open>The effect on \<open>[driverState, miraState, isEmergency, startLiveSession]\<close>.\<close>

definition escalationEffect :: "App \<Rightarrow> App \<Rightarrow> App" where
  "escalationEffect r p =
     (let p1 = (if driverState r = DROWSY \<and> miraState r = IDLE
                then (startLiveSession r p)\<lparr>driverState := ENGAGED\<rparr>
                else p)
      in if driverState r = UNRESPONSIVE \<and> \<not> isEmergency r
         then p1\<lparr>isEmergency := True, emergencyCountdown := 15, emergencyTimerRef := True,
                 sent := (if sessionPromiseRef p1 then sent p1 @ [SendText unresponsiveText]
                          else sent p1)\<rparr>
         else p1)"

text \<open>The effect on \<open>[emergencyCountdown, location]\<close>.\<close>

definition expiryEffect :: "App \<Rightarrow> App \<Rightarrow> App" where
  "expiryEffect r p =
     (if emergencyCountdown r \<le> 0
      then p\<lparr>emergencyTimerRef := False, alerts := alerts p @ [location r],
             isEmergency := False, driverState := MONITORING\<rparr>
      else p)"

definition cancelEmergency :: "App \<Rightarrow> App" where
  "cancelEmergency s =
     s\<lparr>emergencyTimerRef := False, isEmergency := False, driverState := MONITORING,
       transcriptions := transcriptions s @ [\<lparr>speaker = USER, text_of = ''I'm okay.''\<rparr>]\<rparr>"

definition emergencyInterval :: "App \<Rightarrow> App" where
  "emergencyInterval s = s\<lparr>emergencyCountdown := emergencyCountdown s - 1\<rparr>"

text \<open>
  The state updates that one callback or one pass of effects makes are applied together.
  After a state update React renders and runs, in the order of their declaration, the
  effects whose dependencies differ from the previous render; an effect reads the values
  of that render. \<open>startLiveSession\<close> is memoised on \<open>[permissionsGranted, driverState]\<close>,
  so it counts as changed when one of these has changed. \<open>location\<close> is an object and
  changes with every \<open>setLocation\<close>, whatever the coordinates. The effect that installs
  the detection interval is the condition on the detection event below.
\<close>

definition escalationDeps :: "App \<Rightarrow> DriverState \<times> MiraState \<times> bool \<times> bool" where
  "escalationDeps s = (driverState s, miraState s, isEmergency s, permissionsGranted s)"

definition expiryDeps :: "App \<Rightarrow> int \<times> nat" where
  "expiryDeps s = (emergencyCountdown s, locationStamp s)"

definition runEffects :: "App \<Rightarrow> App \<Rightarrow> App" where
  "runEffects old new =
     (let p1 = (if escalationDeps old \<noteq> escalationDeps new then escalationEffect new new
                else new)
      in if expiryDeps old \<noteq> expiryDeps new then expiryEffect new p1 else p1)"


subsection \<open>Tool handlers\<close>

text \<open>
  A function call of the agent carries an id, a name and an argument object, which may be
  absent. A handler reads properties of the argument object: on an absent object that
  throws a TypeError, a missing property reads as \<open>undefined\<close>. Property values are strings.
  The Maps-grounded \<open>generateContent\<close> request is a parameter: the text of the response,
  or \<open>None\<close> when the request fails.

  \<open>mockFunctions\<close> is an object literal, and \<open>mockFunctions[fc.name]\<close> also finds what the
  object inherits from \<open>Object.prototype\<close>. Called as plain functions (\<open>this\<close> undefined),
  \<open>toString\<close> returns \<open>"[object Undefined]"\<close>, \<open>constructor\<close> returns its argument or a new
  empty object, \<open>isPrototypeOf\<close> returns \<open>false\<close> for an absent argument and otherwise
  throws, the other methods throw a TypeError, and \<open>__proto__\<close> is an object that cannot be
  called.
\<close>

type_synonym args = "(string \<times> string) list option"

record FunctionCall =
  id_fc :: string
  name_fc :: string
  args_fc :: args

type_synonym handler = "args \<Rightarrow> App \<Rightarrow> error + (jsvalue \<times> App)"

type_synonym registry = "string \<Rightarrow> handler option"

definition getProp :: "string \<Rightarrow> (string \<times> string) list \<Rightarrow> string" where
  "getProp k a = (case map_of a k of None \<Rightarrow> ''undefined'' | Some v \<Rightarrow> v)"

definition hexDigit :: "nat \<Rightarrow> char" where
  "hexDigit n = ''0123456789ABCDEF'' ! (n mod 16)"

definition percent :: "nat \<Rightarrow> string" where
  "percent b = [CHR ''%'', hexDigit (b div 16), hexDigit b]"

definition uriUnreserved :: "char \<Rightarrow> bool" where
  "uriUnreserved c =
     (c \<in> set ''ABCDEFGHIJKLMNOPQRSTUVWXYZabcdefghijklmnopqrstuvwxyz0123456789-_.!~*'()'')"

definition encodeURIComponent :: "string \<Rightarrow> string" where
  "encodeURIComponent str =
     concat (map (\<lambda>c. let n = of_char c in
                        if uriUnreserved c then [c]
                        else if n < 128 then percent n
                        else percent (192 + n div 64) @ percent (128 + n mod 64)) str)"

definition find_nearby_places :: "(string \<Rightarrow> string option) \<Rightarrow> handler" where
  "find_nearby_places generateContent a s =
     (case a of
        None \<Rightarrow> Inl TypeError
      | Some obj \<Rightarrow>
          if sessionLocation s = None
          then Inr (Str ''I can't find nearby places because I don't have your current location.'', s)
          else if \<not> aiRef s then Inr (Str ''AI service is not initialized.'', s)
          else (case generateContent (''Find a '' @ getProp ''query'' obj
                   @ '' nearby. Provide a brief, conversational summary of the top result.'') of
                  Some response \<Rightarrow> Inr (Str response, s)
                | None \<Rightarrow> Inr (Str ''I had trouble looking that up. Please try again.'', s)))"

definition play_spotify_song :: handler where
  "play_spotify_song a s =
     (case a of
        None \<Rightarrow> Inl TypeError
      | Some obj \<Rightarrow>
          Inr (Str (''Now playing '' @ getProp ''songName'' obj @ '' by ''
                      @ getProp ''artist'' obj @ ''. Enjoy!''),
               s\<lparr>currentSong :=
                    Some \<lparr>title = getProp ''songName'' obj, artist = getProp ''artist'' obj,
                          albumArtUrl = ''https://picsum.photos/seed/''
                            @ encodeURIComponent (getProp ''songName'' obj) @ ''/200''\<rparr>\<rparr>))"

definition objectPrototype :: registry where
  "objectPrototype name =
     (if name = ''toString'' then Some (\<lambda>a s. Inr (Str ''[object Undefined]'', s))
      else if name = ''constructor''
        then Some (\<lambda>a s. Inr (Obj (case a of None \<Rightarrow> [] | Some obj \<Rightarrow> obj), s))
      else if name = ''isPrototypeOf''
        then Some (\<lambda>a s. case a of None \<Rightarrow> Inr (Bool False, s) | Some obj \<Rightarrow> Inl TypeError)
      else if name \<in> set [''hasOwnProperty'', ''propertyIsEnumerable'', ''toLocaleString'',
                           ''valueOf'', ''__defineGetter__'', ''__defineSetter__'',
                           ''__lookupGetter__'', ''__lookupSetter__'', ''__proto__'']
        then Some (\<lambda>a s. Inl TypeError)
      else None)"

definition mockFunctions :: "(string \<Rightarrow> string option) \<Rightarrow> registry" where
  "mockFunctions generateContent name =
     (if name = ''find_nearby_places'' then Some (find_nearby_places generateContent)
      else if name = ''play_spotify_song'' then Some play_spotify_song
      else objectPrototype name)"

subsection \<open>Live session callbacks\<close>

record LiveServerMessage =
  inputTranscription :: "string option"
  outputTranscription :: "string option"
  turnComplete :: bool
  functionCalls :: "FunctionCall list option"
  inlineData :: "string option"

definition isWhiteSpace :: "char \<Rightarrow> bool" where
  "isWhiteSpace c = (of_char c \<in> {9, 10, 11, 12, 13, 32, 160 :: nat})"

definition trim :: "string \<Rightarrow> string" where
  "trim str = rev (dropWhile isWhiteSpace (rev (dropWhile isWhiteSpace str)))"

text \<open>
  The transcription and turn-complete part of \<open>onmessage\<close>. The two \<open>setTranscriptions\<close>
  calls pass updater functions, and React runs an updater when it renders: by then the
  callback has set both accumulators to the empty string, so the updater trims the empty
  string.
\<close>

definition transcribe :: "LiveServerMessage \<Rightarrow> App \<Rightarrow> App" where
  "transcribe message s =
     (let s1 = (case inputTranscription message of
                  Some t \<Rightarrow> s\<lparr>currentInputTranscription := currentInputTranscription s @ t\<rparr>
                | None \<Rightarrow> s);
          s2 = (case outputTranscription message of
                  Some t \<Rightarrow> s1\<lparr>currentOutputTranscription := currentOutputTranscription s1 @ t,
                               miraState := SPEAKING\<rparr>
                | None \<Rightarrow> s1)
      in if turnComplete message then
           let s3 = (if trim (currentInputTranscription s2) \<noteq> []
                     then s2\<lparr>transcriptions := transcriptions s2
                            @ [\<lparr>speaker = USER, text_of = trim []\<rparr>]\<rparr>
                     else s2);
               s4 = (if trim (currentOutputTranscription s3) \<noteq> []
                     then s3\<lparr>transcriptions := transcriptions s3
                            @ [\<lparr>speaker = MIRA, text_of = trim []\<rparr>]\<rparr>
                     else s3)
           in s4\<lparr>currentInputTranscription := [], currentOutputTranscription := [],
                 miraState := LISTENING\<rparr>
         else s2)"

text \<open>
  The loop over \<open>message.toolCall.functionCalls\<close>. A name without a handler is skipped. A
  handler that throws ends the loop and the callback: the result carries the error, and
  the calls after it are not looked at.
\<close>

fun dispatch :: "registry \<Rightarrow> FunctionCall list \<Rightarrow> App \<Rightarrow> error option \<times> App" where
  "dispatch reg [] s = (None, s)"
| "dispatch reg (fc # fcs) s =
     (case reg (name_fc fc) of
        None \<Rightarrow> dispatch reg fcs s
      | Some func \<Rightarrow>
          (case func (args_fc fc) s of
             Inl e \<Rightarrow> (Some e, s)
           | Inr (result, s1) \<Rightarrow>
               dispatch reg fcs
                 (if sessionPromiseRef s1
                  then s1\<lparr>sent := sent s1 @ [SendToolResponse (id_fc fc) (name_fc fc) result]\<rparr>
                  else s1)))"

text \<open>
  The inline audio part of \<open>onmessage\<close>, with the output context's \<open>currentTime\<close> (a
  finite double) as an argument: the cursor is first raised to the clock, then the payload is decoded, the
  source is started at the cursor and the cursor advances by the buffer's duration.
\<close>

definition raiseCursor :: "real \<Rightarrow> App \<Rightarrow> App" where
  "raiseCursor currentTime s =
     s\<lparr>nextAudioStartTimeRef := fmax (nextAudioStartTimeRef s) (Fin currentTime)\<rparr>"

definition startSource :: "AudioBuffer \<Rightarrow> App \<Rightarrow> App" where
  "startSource audioBuffer s =
     s\<lparr>started := started s @ [(nextAudioStartTimeRef s, duration audioBuffer)],
       nextAudioStartTimeRef := fadd (nextAudioStartTimeRef s) (duration audioBuffer)\<rparr>"

definition schedule :: "real \<Rightarrow> AudioBuffer \<Rightarrow> App \<Rightarrow> App" where
  "schedule currentTime audioBuffer s = startSource audioBuffer (raiseCursor currentTime s)"

definition playInline :: "real \<Rightarrow> string option \<Rightarrow> App \<Rightarrow> App" where
  "playInline currentTime audioData s =
     (case audioData of
        None \<Rightarrow> s
      | Some base64 \<Rightarrow>
          if base64 = [] \<or> \<not> outputAudioContextRef s then s
          else
            let s1 = raiseCursor currentTime s
            in (case decode base64 of
                  Inl e \<Rightarrow> s1\<lparr>unhandled := unhandled s1 @ [e]\<rparr>
                | Inr bytes \<Rightarrow>
                    (case decodeAudioData bytes 24000 1 of
                       Inl e \<Rightarrow> s1\<lparr>unhandled := unhandled s1 @ [e]\<rparr>
                     | Inr audioBuffer \<Rightarrow> startSource audioBuffer s1)))"

text \<open>
  The values the cursor takes: a finite double or \<open>+Infinity\<close>. An event has a clock
  reading that is a double.
\<close>

definition cursorOk :: "number \<Rightarrow> bool" where
  "cursorOk c = (isFinite c \<or> c = PosInf)"

definition onmessage :: "registry \<Rightarrow> real \<Rightarrow> LiveServerMessage \<Rightarrow> App \<Rightarrow> App" where
  "onmessage reg currentTime message s =
     (let s1 = transcribe message s
      in case functionCalls message of
           None \<Rightarrow> playInline currentTime (inlineData message) s1
         | Some fcs \<Rightarrow>
             (case dispatch reg fcs (s1\<lparr>miraState := THINKING\<rparr>) of
                (Some e, s2) \<Rightarrow> s2\<lparr>unhandled := unhandled s2 @ [e]\<rparr>
              | (None, s2) \<Rightarrow> playInline currentTime (inlineData message) s2))"

definition onerror :: "App \<Rightarrow> App" where
  "onerror s = s"

definition onclose :: "App \<Rightarrow> App" where
  "onclose s = s\<lparr>miraState := IDLE, analyserNode := False\<rparr>"

text \<open>
  The rest of \<open>startLiveSession\<close>, after the connection is made: the session promise is
  stored and, the callback having closed over a render in DROWSY, the prompt is sent.
\<close>

definition connected :: "App \<Rightarrow> App" where
  "connected s =
     s\<lparr>sessionPromiseRef := True, connecting := connecting s - 1,
       sent := sent s @ [SendText drowsyText]\<rparr>"

subsection \<open>Events\<close>

text \<open>
  What can happen to the component, each with the condition under which the code has the
  callback installed: the detection interval runs while permissions are granted, models are
  loaded and the driver state is MONITORING; the countdown interval runs between its start
  and \<open>clearInterval\<close>; the "I'm Okay" button exists while \<open>isEmergency\<close>; the session
  callbacks exist once a session was started and connected; a connection completes only for
  a session that was started.
\<close>

datatype Event =
    ModelsLoaded
  | PermissionsGranted
  | LocationUpdate Location
  | DetectionTick Detection
  | EmergencyTick
  | CancelClick
  | LiveConnected
  | ServerMessage real LiveServerMessage
  | SessionError
  | SessionClose

fun handle :: "registry \<Rightarrow> Event \<Rightarrow> App \<Rightarrow> App" where
  "handle reg ModelsLoaded s = s\<lparr>modelsLoaded := True\<rparr>"
| "handle reg PermissionsGranted s =
     (if modelsLoaded s then s\<lparr>permissionsGranted := True\<rparr> else s)"
| "handle reg (LocationUpdate l) s =
     (if permissionsGranted s
      then s\<lparr>location := Some l, locationStamp := Suc (locationStamp s)\<rparr> else s)"
| "handle reg (DetectionTick d) s =
     (if permissionsGranted s \<and> modelsLoaded s \<and> driverState s = MONITORING
      then detectionCallback d s else s)"
| "handle reg EmergencyTick s = (if emergencyTimerRef s then emergencyInterval s else s)"
| "handle reg CancelClick s = (if isEmergency s then cancelEmergency s else s)"
| "handle reg LiveConnected s =
     (if 0 < connecting s then connected s else s)"
| "handle reg (ServerMessage currentTime message) s =
     (if sessionPromiseRef s then onmessage reg currentTime message s else s)"
| "handle reg SessionError s = (if sessionPromiseRef s then onerror s else s)"
| "handle reg SessionClose s = (if sessionPromiseRef s then onclose s else s)"

definition clockOk :: "Event \<Rightarrow> bool" where
  "clockOk e = (case e of ServerMessage currentTime message \<Rightarrow> isFinite (Fin currentTime)
                | _ \<Rightarrow> True)"

definition step :: "registry \<Rightarrow> Event \<Rightarrow> App \<Rightarrow> App" where
  "step reg e s = runEffects s (handle reg e s)"

fun run :: "registry \<Rightarrow> Event list \<Rightarrow> App \<Rightarrow> App" where
  "run reg [] s = s"
| "run reg (e # es) s = run reg es (step reg e s)"

subsection \<open>Auxiliary notions and sample inputs\<close>

text \<open>The detection interval is installed: permissions granted, models loaded, state MONITORING.\<close>

definition monitoring :: "App \<Rightarrow> bool" where
  "monitoring s \<longleftrightarrow> permissionsGranted s \<and> modelsLoaded s \<and> driverState s = MONITORING"

text \<open>
  An open eye (ratio 1/2), an eye with the ratio 0.24253562503633297 and a closed eye
  (ratio 0), a Maps request that always fails, and the component after its setup has
  finished, with and without an API key.
\<close>

definition openEye :: "Point list" where
  "openEye = [\<lparr>px = Fin 0, py = Fin 0\<rparr>, \<lparr>px = Fin 1, py = Fin 1\<rparr>,
              \<lparr>px = Fin 3, py = Fin 1\<rparr>, \<lparr>px = Fin 4, py = Fin 0\<rparr>,
              \<lparr>px = Fin 3, py = Fin (- 1)\<rparr>, \<lparr>px = Fin 1, py = Fin (- 1)\<rparr>]"

definition slantedEye :: "Point list" where
  "slantedEye = [\<lparr>px = Fin 0, py = Fin 0\<rparr>, \<lparr>px = Fin 1, py = Fin 1\<rparr>,
                 \<lparr>px = Fin 3, py = Fin 1\<rparr>, \<lparr>px = Fin 4, py = Fin 1\<rparr>,
                 \<lparr>px = Fin 3, py = Fin 0\<rparr>, \<lparr>px = Fin 1, py = Fin 0\<rparr>]"

definition closedEye :: "Point list" where
  "closedEye = [\<lparr>px = Fin 0, py = Fin 0\<rparr>, \<lparr>px = Fin 1, py = Fin 0\<rparr>,
                \<lparr>px = Fin 3, py = Fin 0\<rparr>, \<lparr>px = Fin 4, py = Fin 0\<rparr>,
                \<lparr>px = Fin 3, py = Fin 0\<rparr>, \<lparr>px = Fin 1, py = Fin 0\<rparr>]"

definition noMaps :: "string \<Rightarrow> string option" where
  "noMaps prompt = None"

definition readyApp :: "bool \<Rightarrow> App" where
  "readyApp apiKey =
     run (mockFunctions noMaps) [ModelsLoaded, PermissionsGranted] (initialApp apiKey)"

text \<open>The emergency countdown is running.\<close>

definition counting :: "App \<Rightarrow> bool" where
  "counting s \<longleftrightarrow> driverState s = UNRESPONSIVE \<and> isEmergency s \<and> emergencyTimerRef s"

text \<open>
  The component after 25 samples without a face, and after 10 samples with closed eyes:
  one more such sample raises the driver state.
\<close>

definition faceLostApp :: App where
  "faceLostApp =
     run (mockFunctions noMaps) (replicate 25 (DetectionTick NoFace)) (readyApp True)"

definition almostDrowsyApp :: "bool \<Rightarrow> App" where
  "almostDrowsyApp apiKey =
     run (mockFunctions noMaps) (replicate 10 (DetectionTick (Face closedEye closedEye)))
       (readyApp apiKey)"

text \<open>
  A registry whose handlers leave the session reference and the outgoing messages alone, as
  the handlers of \<open>mockFunctions\<close> do; and the tool response the loop sends for a call and
  a result.
\<close>

definition handlersKeepSession :: "registry \<Rightarrow> bool" where
  "handlersKeepSession reg \<longleftrightarrow>
     (\<forall>name func a s result s1.
        reg name = Some func \<longrightarrow> func a s = Inr (result, s1) \<longrightarrow>
        sessionPromiseRef s1 = sessionPromiseRef s \<and> sent s1 = sent s)"

definition toolResponse :: "FunctionCall \<times> jsvalue \<Rightarrow> Outbound" where
  "toolResponse cr = SendToolResponse (id_fc (fst cr)) (name_fc (fst cr)) (snd cr)"

text \<open>
  The component once the eleventh closed-eye sample has started a session and the session
  is connected; the same after a message with a transcript delta and four bytes of audio
  that arrived at clock time 1; tool calls, the component after the song call was
  dispatched, and a message that carries tool calls; silent audio buffers at 24 kHz.
\<close>

definition engagedApp :: App where
  "engagedApp =
     run (mockFunctions noMaps) [DetectionTick (Face closedEye closedEye), LiveConnected]
       (almostDrowsyApp True)"

definition speakingApp :: App where
  "speakingApp =
     step (mockFunctions noMaps)
       (ServerMessage 1 \<lparr>inputTranscription = None, outputTranscription = Some ''Hi'',
          turnComplete = False, functionCalls = None, inlineData = Some ''AAAAAA==''\<rparr>)
       engagedApp"

definition unknownCall :: FunctionCall where
  "unknownCall = \<lparr>id_fc = ''call-1'', name_fc = ''get_weather'', args_fc = Some []\<rparr>"

definition failingCall :: FunctionCall where
  "failingCall = \<lparr>id_fc = ''call-2'', name_fc = ''play_spotify_song'', args_fc = None\<rparr>"

definition songCall :: FunctionCall where
  "songCall = \<lparr>id_fc = ''call-3'', name_fc = ''play_spotify_song'',
                args_fc = Some [(''songName'', ''Hello''), (''artist'', ''Adele'')]\<rparr>"

definition placesCall :: FunctionCall where
  "placesCall = \<lparr>id_fc = ''call-4'', name_fc = ''find_nearby_places'',
                  args_fc = Some [(''query'', ''coffee shop'')]\<rparr>"

definition songPlaying :: App where
  "songPlaying = snd (dispatch (mockFunctions noMaps) [songCall] engagedApp)"

definition toolMessage :: "FunctionCall list \<Rightarrow> LiveServerMessage" where
  "toolMessage fcs =
     \<lparr>inputTranscription = None, outputTranscription = None, turnComplete = False,
      functionCalls = Some fcs, inlineData = None\<rparr>"

definition silence :: "nat \<Rightarrow> AudioBuffer" where
  "silence n = \<lparr>channelData = [replicate n 0], length_ab = n, sampleRate_ab = 24000\<rparr>"


section \<open>Rounding to a double\<close>

text \<open>
  Facts about \<open>fl\<close>: it is monotone, it leaves a double alone, it commutes with a
  multiplication by a power of two inside the normal range, and it can be evaluated on a
  rational number once the binade of the number is given.
\<close>

lemma pow2_powr: "pow2 k = 2 powr (of_int k)"
  by (simp add: pow2_def powr_real_of_int inverse_eq_divide)

lemma pow2_pos [simp]: "0 < pow2 k"
  by (simp add: pow2_powr)

lemma pow2_nonzero [simp]: "pow2 k \<noteq> 0"
  using pow2_pos[of k] by linarith

lemma pow2_not_le_0 [simp]: "\<not> pow2 k \<le> 0"
  using pow2_pos[of k] by linarith

lemma abs_pow2 [simp]: "\<bar>pow2 k\<bar> = pow2 k"
  using pow2_pos[of k] by linarith

lemma pow2_add: "pow2 (a + b) = pow2 a * pow2 b"
  by (simp add: pow2_powr powr_add)

lemma pow2_mono: "a \<le> b \<Longrightarrow> pow2 a \<le> pow2 b"
  by (simp add: pow2_powr)

lemma pow2_less: "a < b \<Longrightarrow> pow2 a < pow2 b"
  by (simp add: pow2_powr)

lemma pow2_0 [simp]: "pow2 0 = 1"
  by (simp add: pow2_def)

lemma floor_log2:
  assumes "x \<noteq> 0"
  shows "pow2 \<lfloor>log 2 \<bar>x\<bar>\<rfloor> \<le> \<bar>x\<bar>" and "\<bar>x\<bar> < pow2 (\<lfloor>log 2 \<bar>x\<bar>\<rfloor> + 1)"
proof -
  have "0 < \<bar>x\<bar>" using assms by simp
  from floor_log_eq_powr_iff[OF this, of 2 "\<lfloor>log 2 \<bar>x\<bar>\<rfloor>"]
  show "pow2 \<lfloor>log 2 \<bar>x\<bar>\<rfloor> \<le> \<bar>x\<bar>" and "\<bar>x\<bar> < pow2 (\<lfloor>log 2 \<bar>x\<bar>\<rfloor> + 1)"
    by (simp_all add: pow2_powr)
qed

lemma floor_log2_eq:
  assumes "pow2 e \<le> \<bar>x\<bar>" "\<bar>x\<bar> < pow2 (e + 1)"
  shows "\<lfloor>log 2 \<bar>x\<bar>\<rfloor> = e"
proof -
  have "0 < \<bar>x\<bar>" using assms(1) pow2_pos[of e] by linarith
  from floor_log_eq_powr_iff[OF this, of 2 e] assms show ?thesis
    by (simp add: pow2_powr)
qed

lemma rne_of_int [simp]: "rne (of_int n) = n"
  by (simp add: rne_def)

lemma rne_0 [simp]: "rne 0 = 0"
  using rne_of_int[of 0] by simp

lemma rne_near: "\<bar>of_int (rne y) - y\<bar> \<le> 1/2"
  unfolding rne_def Let_def by (auto; linarith)

lemma rne_mono: "x \<le> y \<Longrightarrow> rne x \<le> rne y"
proof -
  assume xy: "x \<le> y"
  have fm: "\<lfloor>x\<rfloor> \<le> \<lfloor>y\<rfloor>" using xy by (rule floor_mono)
  show ?thesis
  proof (cases "\<lfloor>x\<rfloor> = \<lfloor>y\<rfloor>")
    case True
    then show ?thesis using xy unfolding rne_def Let_def by (auto; linarith)
  next
    case False
    with fm have "\<lfloor>x\<rfloor> + 1 \<le> \<lfloor>y\<rfloor>" by simp
    moreover have "rne x \<le> \<lfloor>x\<rfloor> + 1" unfolding rne_def Let_def by auto
    moreover have "\<lfloor>y\<rfloor> \<le> rne y" unfolding rne_def Let_def by auto
    ultimately show ?thesis by linarith
  qed
qed

lemma rne_ge: "of_int a \<le> y \<Longrightarrow> a \<le> rne y"
  using rne_mono[of "of_int a" y] by simp

lemma rne_le: "y \<le> of_int b \<Longrightarrow> rne y \<le> b"
  using rne_mono[of y "of_int b"] by simp

lemma rne_minus: "rne (- y) = - rne y"
proof (cases "y = of_int \<lfloor>y\<rfloor>")
  case True
  then obtain n where "y = of_int n" by metis
  then show ?thesis by (simp flip: of_int_minus)
next
  case False
  then have c: "\<lceil>y\<rceil> = \<lfloor>y\<rfloor> + 1" by (metis ceiling_altdef)
  have f: "\<lfloor>- y\<rfloor> = - \<lfloor>y\<rfloor> - 1" using c by (simp add: floor_minus)
  show ?thesis unfolding rne_def Let_def f by (auto; (linarith | presburger)?)
qed


lemma expo_abs: "expo (- x) = expo x"
  by (simp add: expo_def)

lemma ulp_pos [simp]: "0 < ulp x"
  by (simp add: ulp_def)

lemma ulp_nonzero [simp]: "ulp x \<noteq> 0"
  by (simp add: ulp_def)

lemma abs_ulp [simp]: "\<bar>ulp x\<bar> = ulp x"
  by (simp add: ulp_def)

lemma ulp_minus: "ulp (- x) = ulp x"
  by (simp add: ulp_def expo_abs)

lemma rd_minus: "rd (- x) = - rd x"
  by (simp add: rd_def ulp_minus rne_minus)

lemma rd_0 [simp]: "rd 0 = 0"
  by (simp add: rd_def)

lemma expo_normal:
  assumes "pow2 (- 1022) \<le> \<bar>x\<bar>"
  shows "pow2 (expo x) \<le> \<bar>x\<bar>" and "\<bar>x\<bar> < pow2 (expo x + 1)" and "expo x = \<lfloor>log 2 \<bar>x\<bar>\<rfloor>"
proof -
  have "0 < \<bar>x\<bar>" using assms pow2_pos[of "- 1022"] by linarith
  then have x0: "x \<noteq> 0" by simp
  have "- 1022 \<le> \<lfloor>log 2 \<bar>x\<bar>\<rfloor>"
  proof (rule ccontr)
    assume "\<not> - 1022 \<le> \<lfloor>log 2 \<bar>x\<bar>\<rfloor>"
    then have "\<lfloor>log 2 \<bar>x\<bar>\<rfloor> + 1 \<le> - 1022" by linarith
    then have "pow2 (\<lfloor>log 2 \<bar>x\<bar>\<rfloor> + 1) \<le> pow2 (- 1022)" by (rule pow2_mono)
    with floor_log2(2)[OF x0] assms show False by linarith
  qed
  then show e: "expo x = \<lfloor>log 2 \<bar>x\<bar>\<rfloor>" by (simp add: expo_def)
  show "pow2 (expo x) \<le> \<bar>x\<bar>" and "\<bar>x\<bar> < pow2 (expo x + 1)"
    unfolding e using floor_log2[OF x0] by simp_all
qed

lemma expo_subnormal:
  assumes "\<bar>x\<bar> < pow2 (- 1022)" "x \<noteq> 0"
  shows "expo x = - 1022"
proof -
  note False = assms(2)
  have "\<lfloor>log 2 \<bar>x\<bar>\<rfloor> \<le> - 1022"
  proof (rule ccontr)
    assume "\<not> \<lfloor>log 2 \<bar>x\<bar>\<rfloor> \<le> - 1022"
    then have "- 1022 \<le> \<lfloor>log 2 \<bar>x\<bar>\<rfloor>" by linarith
    then have "pow2 (- 1022) \<le> pow2 \<lfloor>log 2 \<bar>x\<bar>\<rfloor>" by (rule pow2_mono)
    with floor_log2(1)[OF False] assms show False by linarith
  qed
  then show ?thesis by (simp add: expo_def)
qed

lemma expo_eq:
  assumes "pow2 e \<le> \<bar>x\<bar>" "\<bar>x\<bar> < pow2 (e + 1)" "- 1022 \<le> e"
  shows "expo x = e"
  using floor_log2_eq[OF assms(1,2)] assms(3) by (simp add: expo_def)

lemma expo_ge: "- 1022 \<le> expo x"
  by (simp add: expo_def)

lemma expo_mono:
  assumes "\<bar>x\<bar> \<le> \<bar>y\<bar>" "x \<noteq> 0"
  shows "expo x \<le> expo y"
proof -
  have "log 2 \<bar>x\<bar> \<le> log 2 \<bar>y\<bar>" using assms by simp
  then have "\<lfloor>log 2 \<bar>x\<bar>\<rfloor> \<le> \<lfloor>log 2 \<bar>y\<bar>\<rfloor>" by (rule floor_mono)
  then show ?thesis by (simp add: expo_def)
qed

lemma pow2_52: "pow2 52 = 4503599627370496"
  by (simp add: pow2_def)

lemma pow2_53: "pow2 53 = 9007199254740992"
  by (simp add: pow2_def)

lemma div_ulp_upper:
  assumes "x \<noteq> 0"
  shows "\<bar>x\<bar> / ulp x < pow2 53"
proof -
  have lt: "\<bar>x\<bar> < pow2 (expo x + 1)"
  proof (cases "pow2 (- 1022) \<le> \<bar>x\<bar>")
    case True
    then show ?thesis by (rule expo_normal(2))
  next
    case False
    then have "\<bar>x\<bar> < pow2 (- 1022)" by simp
    moreover from this assms have "expo x = - 1022" by (rule expo_subnormal)
    moreover have "pow2 (- 1022) \<le> pow2 (- 1022 + 1)" by (rule pow2_mono) simp
    ultimately show ?thesis by simp
  qed
  have "pow2 (expo x + 1) = pow2 53 * ulp x"
    by (simp add: ulp_def pow2_add[symmetric] algebra_simps)
  with lt show ?thesis by (simp add: pos_divide_less_eq)
qed

lemma div_ulp_lower:
  assumes "pow2 (- 1022) \<le> \<bar>x\<bar>"
  shows "pow2 52 \<le> \<bar>x\<bar> / ulp x"
proof -
  have "pow2 (expo x) = pow2 52 * ulp x"
    by (simp add: ulp_def pow2_add[symmetric] algebra_simps)
  with expo_normal(1)[OF assms] show ?thesis by (simp add: pos_le_divide_eq)
qed

lemma rd_pos_upper:
  assumes "0 < x"
  shows "rd x \<le> pow2 (expo x + 1)" and "0 \<le> rd x"
proof -
  from assms have x0: "x \<noteq> 0" by simp
  have "x / ulp x < pow2 53" using div_ulp_upper[OF x0] assms by simp
  then have "x / ulp x \<le> of_int 9007199254740992" by (simp add: pow2_53)
  then have "rne (x / ulp x) \<le> 9007199254740992" by (rule rne_le)
  then have "of_int (rne (x / ulp x)) \<le> pow2 53" by (simp add: pow2_53)
  then have "of_int (rne (x / ulp x)) * ulp x \<le> pow2 53 * ulp x"
    by (simp add: mult_right_mono)
  moreover have "pow2 (expo x + 1) = pow2 53 * ulp x"
    by (simp add: ulp_def pow2_add[symmetric] algebra_simps)
  ultimately show "rd x \<le> pow2 (expo x + 1)" using x0 by (simp add: rd_def)
  have "of_int 0 \<le> x / ulp x" using assms by (simp add: zero_le_divide_iff less_imp_le)
  then have "0 \<le> rne (x / ulp x)" by (rule rne_ge)
  then show "0 \<le> rd x" by (simp add: rd_def zero_le_mult_iff less_imp_le)
qed

lemma rd_pos_lower:
  assumes "0 < x" "pow2 (- 1022) \<le> x"
  shows "pow2 (expo x) \<le> rd x"
proof -
  from assms have x0: "x \<noteq> 0" by simp
  have "pow2 52 \<le> x / ulp x" using div_ulp_lower[of x] assms by simp
  then have "of_int 4503599627370496 \<le> x / ulp x" by (simp add: pow2_52)
  then have "4503599627370496 \<le> rne (x / ulp x)" by (rule rne_ge)
  then have "pow2 52 \<le> of_int (rne (x / ulp x))" by (simp add: pow2_52)
  then have "pow2 52 * ulp x \<le> of_int (rne (x / ulp x)) * ulp x"
    by (simp add: mult_right_mono)
  moreover have "pow2 (expo x) = pow2 52 * ulp x"
    by (simp add: ulp_def pow2_add[symmetric] algebra_simps)
  ultimately show ?thesis using x0 by (simp add: rd_def)
qed

lemma rd_mono_pos:
  assumes "0 < x" "x \<le> y"
  shows "rd x \<le> rd y"
proof -
  from assms have y0: "0 < y" by simp
  have le: "expo x \<le> expo y" using expo_mono[of x y] assms by simp
  show ?thesis
  proof (cases "expo x = expo y")
    case True
    then have u: "ulp x = ulp y" by (simp add: ulp_def)
    have "x / ulp y \<le> y / ulp y"
      using assms(2) by (intro divide_right_mono) (simp_all add: less_imp_le)
    then have "rne (x / ulp y) \<le> rne (y / ulp y)" by (rule rne_mono)
    then have "of_int (rne (x / ulp y)) * ulp y \<le> of_int (rne (y / ulp y)) * ulp y"
      by (simp add: mult_right_mono)
    then show ?thesis using assms y0 by (simp add: rd_def u)
  next
    case False
    with le have lt: "expo x + 1 \<le> expo y" by simp
    with expo_ge[of x] have "- 1022 < expo y" by simp
    then have "pow2 (- 1022) \<le> y"
      using expo_subnormal[of y] y0 by (cases "y < pow2 (- 1022)") simp_all
    from rd_pos_lower[OF y0 this] have "pow2 (expo y) \<le> rd y" .
    moreover have "pow2 (expo x + 1) \<le> pow2 (expo y)" using lt by (rule pow2_mono)
    moreover have "rd x \<le> pow2 (expo x + 1)" using rd_pos_upper(1)[OF assms(1)] .
    ultimately show ?thesis by linarith
  qed
qed

lemma rd_nonneg: "0 \<le> x \<Longrightarrow> 0 \<le> rd x"
  using rd_pos_upper(2)[of x] by (cases "x = 0") simp_all

lemma rd_nonpos: "x \<le> 0 \<Longrightarrow> rd x \<le> 0"
  using rd_nonneg[of "- x"] by (simp add: rd_minus)

lemma rd_mono:
  assumes "x \<le> y"
  shows "rd x \<le> rd y"
proof -
  consider "0 < x" | "y < 0" | "x \<le> 0" "0 \<le> y" by linarith
  then show ?thesis
  proof cases
    case 1
    then show ?thesis using rd_mono_pos assms by simp
  next
    case 2
    then have "0 < - y" "- y \<le> - x" using assms by simp_all
    from rd_mono_pos[OF this] show ?thesis by (simp add: rd_minus)
  next
    case 3
    then show ?thesis using rd_nonpos[of x] rd_nonneg[of y] by linarith
  qed
qed


lemma rd_dyadic:
  assumes "\<bar>m\<bar> < 9007199254740992" "- 1074 \<le> k"
  shows "rd (of_int m * pow2 k) = of_int m * pow2 k"
proof (cases "m = 0")
  case True
  then show ?thesis by simp
next
  case False
  define y where "y = real_of_int m * pow2 k"
  have y0: "y \<noteq> 0" using False by (simp add: y_def)
  define e where "e = expo y"
  have "\<bar>y\<bar> / ulp y < pow2 53" using div_ulp_upper[OF y0] .
  have ay: "\<bar>y\<bar> = of_int \<bar>m\<bar> * pow2 k" by (simp add: y_def abs_mult)
  have e_ge: "k + 52 - e \<ge> 0 \<or> e = - 1022"
  proof (cases "pow2 (- 1022) \<le> \<bar>y\<bar>")
    case True
    from expo_normal(1)[OF True] have "pow2 e \<le> of_int \<bar>m\<bar> * pow2 k" by (simp add: e_def ay)
    also have "\<dots> < pow2 53 * pow2 k" using assms(1) by (simp add: pow2_53)
    finally have "pow2 e < pow2 (53 + k)" by (simp add: pow2_add)
    then have "e < 53 + k" by (metis not_le pow2_mono leD)
    then show ?thesis by simp
  next
    case False
    then have "\<bar>y\<bar> < pow2 (- 1022)" by simp
    from expo_subnormal[OF this y0] show ?thesis by (simp add: e_def)
  qed
  have j: "0 \<le> k + 52 - e" using e_ge assms(2) by auto
  have "y / ulp y = of_int m * (pow2 k / pow2 (e - 52))" by (simp add: y_def ulp_def e_def)
  also have "pow2 k / pow2 (e - 52) = pow2 (k + 52 - e)"
  proof -
    have "pow2 k = pow2 (k + 52 - e) * pow2 (e - 52)" by (simp add: pow2_add[symmetric])
    then show ?thesis by simp
  qed
  also have "pow2 (k + 52 - e) = of_int (2 ^ nat (k + 52 - e))" using j by (simp add: pow2_def)
  finally have "y / ulp y = of_int (m * 2 ^ nat (k + 52 - e))" by simp
  then have "rne (y / ulp y) = m * 2 ^ nat (k + 52 - e)" by (simp only: rne_of_int)
  then have "of_int (rne (y / ulp y)) = y / ulp y"
    using \<open>y / ulp y = of_int (m * 2 ^ nat (k + 52 - e))\<close> by simp
  then have "rd y = y" using y0 by (simp add: rd_def)
  then show ?thesis by (simp add: y_def)
qed

lemma rd_range:
  assumes "x \<noteq> 0"
  obtains m where "rd x = of_int m * ulp x" "\<bar>m\<bar> \<le> 9007199254740992"
proof -
  define m where "m = rne (x / ulp x)"
  have r: "rd x = of_int m * ulp x" using assms by (simp add: rd_def m_def)
  have "\<bar>x / ulp x\<bar> = \<bar>x\<bar> / ulp x" by simp
  then have "\<bar>x / ulp x\<bar> < 9007199254740992"
    using div_ulp_upper[OF assms] by (simp only: pow2_53)
  then have "x / ulp x \<le> of_int 9007199254740992" "of_int (- 9007199254740992) \<le> x / ulp x"
    by (simp_all only: abs_less_iff of_int_numeral of_int_minus) linarith+
  then have "m \<le> 9007199254740992" "- 9007199254740992 \<le> m"
    unfolding m_def using rne_le rne_ge by blast+
  then have "\<bar>m\<bar> \<le> 9007199254740992" by simp
  with r that show ?thesis by blast
qed

lemma rd_idem: "rd (rd x) = rd x"
proof (cases "x = 0")
  case True
  then show ?thesis by simp
next
  case False
  from rd_range[OF False] obtain m where m: "rd x = of_int m * ulp x" "\<bar>m\<bar> \<le> 9007199254740992"
    by blast
  have k: "- 1074 \<le> expo x - 52" using expo_ge[of x] by simp
  show ?thesis
  proof (cases "\<bar>m\<bar> < 9007199254740992")
    case True
    from rd_dyadic[OF True k] show ?thesis by (simp add: m ulp_def)
  next
    case False
    with m(2) have "\<bar>m\<bar> = 9007199254740992" by simp
    then consider "m = 9007199254740992" | "m = - 9007199254740992" by linarith
    moreover have "pow2 (expo x - 52 + 1) = 2 * pow2 (expo x - 52)"
      by (simp only: pow2_add) (simp add: pow2_def)
    ultimately have "of_int m * ulp x = of_int (m div 2) * pow2 (expo x - 52 + 1)"
      by cases (simp_all add: ulp_def)
    moreover have "\<bar>m div 2\<bar> < 9007199254740992" using \<open>\<bar>m\<bar> = 9007199254740992\<close> by linarith
    moreover have "- 1074 \<le> expo x - 52 + 1" using k by simp
    ultimately show ?thesis using rd_dyadic[of "m div 2" "expo x - 52 + 1"] by (simp add: m)
  qed
qed

lemma rd_scale:
  assumes "pow2 (- 1022) \<le> \<bar>x\<bar>" "pow2 (- 1022) \<le> pow2 n * \<bar>x\<bar>"
  shows "rd (pow2 n * x) = pow2 n * rd x"
proof -
  have "0 < \<bar>x\<bar>" using assms(1) pow2_pos[of "- 1022"] by linarith
  then have x0: "x \<noteq> 0" by simp
  have a: "\<bar>pow2 n * x\<bar> = pow2 n * \<bar>x\<bar>" by (simp add: abs_mult)
  have "pow2 (n + expo x) \<le> \<bar>pow2 n * x\<bar>" "\<bar>pow2 n * x\<bar> < pow2 (n + expo x + 1)"
    using expo_normal(1,2)[OF assms(1)] by (simp_all add: a pow2_add)
  moreover have "- 1022 \<le> n + expo x"
  proof (rule ccontr)
    assume "\<not> - 1022 \<le> n + expo x"
    then have "n + expo x + 1 \<le> - 1022" by simp
    then have "pow2 (n + expo x + 1) \<le> pow2 (- 1022)" by (rule pow2_mono)
    with \<open>\<bar>pow2 n * x\<bar> < pow2 (n + expo x + 1)\<close> assms(2) a show False by linarith
  qed
  ultimately have "expo (pow2 n * x) = n + expo x" by (rule expo_eq)
  then have u: "ulp (pow2 n * x) = pow2 n * ulp x"
    by (simp add: ulp_def pow2_add[symmetric] algebra_simps)
  show ?thesis using x0 by (simp add: rd_def u)
qed


lemma rd_normal:
  assumes "pow2 e \<le> \<bar>x\<bar>" "\<bar>x\<bar> < pow2 (e + 1)" "- 1022 \<le> e"
  shows "rd x = of_int (rne (x / pow2 (e - 52))) * pow2 (e - 52)"
proof -
  have "0 < \<bar>x\<bar>" using assms(1) pow2_pos[of e] by linarith
  then have "x \<noteq> 0" by simp
  then show ?thesis using expo_eq[OF assms] by (simp add: rd_def ulp_def)
qed

lemma rd_subnormal:
  assumes "\<bar>x\<bar> < pow2 (- 1022)"
  shows "rd x = of_int (rne (x / pow2 (- 1074))) * pow2 (- 1074)"
proof (cases "x = 0")
  case True
  then show ?thesis by simp
next
  case False
  then show ?thesis using expo_subnormal[OF assms False] by (simp add: rd_def ulp_def)
qed

lemma fl_normal:
  assumes "pow2 e \<le> \<bar>x\<bar>" "\<bar>x\<bar> < pow2 (e + 1)" "- 1022 \<le> e"
    and "of_int (rne (x / pow2 (e - 52))) * pow2 (e - 52) = y" and "\<bar>y\<bar> < pow2 1024"
  shows "fl x = Fin y"
  using rd_normal[OF assms(1-3)] assms(4,5) by (simp add: fl_def)

lemma fl_subnormal:
  assumes "\<bar>x\<bar> < pow2 (- 1022)"
    and "of_int (rne (x / pow2 (- 1074))) * pow2 (- 1074) = y"
  shows "fl x = Fin y"
proof -
  have y: "rd x = y" using rd_subnormal[OF assms(1)] assms(2) by simp
  have "\<bar>rd x\<bar> = rd \<bar>x\<bar>" using rd_minus[of x] rd_nonneg[of x] rd_nonpos[of x]
    by (cases "0 \<le> x") (simp_all add: abs_if)
  also have "\<dots> \<le> rd (pow2 (- 1022))" using assms(1) by (intro rd_mono) simp
  also have "rd (pow2 (- 1022)) = pow2 (- 1022)" using rd_dyadic[of 1 "- 1022"] by simp
  also have "\<dots> < pow2 1024" by (rule pow2_less) simp
  finally show ?thesis using y by (simp add: fl_def)
qed

lemma fl_dyadic:
  assumes "\<bar>m\<bar> < 9007199254740992" "- 1074 \<le> k" "\<bar>of_int m * pow2 k\<bar> < pow2 1024"
  shows "fl (of_int m * pow2 k) = Fin (of_int m * pow2 k)"
  using rd_dyadic[OF assms(1,2)] assms(3) by (simp add: fl_def)

lemma fl_0 [simp]: "fl 0 = Fin 0"
  by (simp add: fl_def)


lemma pow2_1024_big: "9007199254740992 \<le> pow2 1024"
  using pow2_mono[of 53 1024] by (simp add: pow2_53)

lemma fl_of_int: "\<bar>m\<bar> < 9007199254740992 \<Longrightarrow> fl (of_int m) = Fin (of_int m)"
proof -
  assume m: "\<bar>m\<bar> < 9007199254740992"
  then have "\<bar>real_of_int m\<bar> < 9007199254740992" by linarith
  then have "\<bar>of_int m * pow2 0\<bar> < pow2 1024" using pow2_1024_big by simp
  from fl_dyadic[OF m _ this] show ?thesis by simp
qed

lemma fl_numeral [simp]:
  "(numeral k :: int) < 9007199254740992 \<Longrightarrow> fl (numeral k) = Fin (numeral k)"
  using fl_of_int[of "numeral k"] by simp

lemma fl_neg_numeral [simp]:
  "(numeral k :: int) < 9007199254740992 \<Longrightarrow> fl (- numeral k) = Fin (- numeral k)"
  using fl_of_int[of "- numeral k"] by simp

lemma fl_1 [simp]: "fl 1 = Fin 1"
  using fl_of_int[of 1] by simp

lemma fl_neg_1 [simp]: "fl (- 1) = Fin (- 1)"
  using fl_of_int[of "- 1"] by simp

lemma fl_half [simp]: "fl (1 / 2) = Fin (1 / 2)"
  using fl_dyadic[of 1 "- 1"] pow2_1024_big by (simp add: pow2_def)

lemma fl_quarter [simp]: "fl (1 / 4) = Fin (1 / 4)"
  using fl_dyadic[of 1 "- 2"] pow2_1024_big by (simp add: pow2_def)

lemma fl_cases: "fl x = PosInf \<or> fl x = NegInf \<or> fl x = Fin (rd x)"
  by (simp add: fl_def)

lemma fl_not_NaN [simp]: "fl x \<noteq> NaN"
  by (simp add: fl_def)

lemma fl_PosInf: "fl x = PosInf \<longleftrightarrow> pow2 1024 \<le> rd x \<and> 0 < x"
proof -
  have "0 < x \<Longrightarrow> \<bar>rd x\<bar> = rd x" using rd_nonneg[of x] by simp
  then show ?thesis by (auto simp add: fl_def)
qed

lemma fl_NegInf: "fl x = NegInf \<longleftrightarrow> rd x \<le> - pow2 1024 \<and> x \<le> 0"
proof -
  have "x \<le> 0 \<Longrightarrow> \<bar>rd x\<bar> = - rd x" using rd_nonpos[of x] by simp
  then show ?thesis by (auto simp add: fl_def)
qed

lemma fl_Fin: "fl x = Fin y \<longleftrightarrow> \<bar>rd x\<bar> < pow2 1024 \<and> y = rd x"
  by (auto simp add: fl_def)

lemma fle_NegInf [simp]: "fle NegInf b \<longleftrightarrow> b \<noteq> NaN"
  by (cases b) simp_all

lemma fle_PosInf [simp]: "fle a PosInf \<longleftrightarrow> a \<noteq> NaN"
  by (cases a) simp_all

lemma fl_mono: "x \<le> y \<Longrightarrow> fle (fl x) (fl y)"
proof -
  assume xy: "x \<le> y"
  then have r: "rd x \<le> rd y" by (rule rd_mono)
  consider "fl x = NegInf" | "fl y = PosInf" | "fl x = PosInf" "fl y \<noteq> PosInf"
    | "fl y = NegInf" "fl x \<noteq> NegInf" | "fl x = Fin (rd x)" "fl y = Fin (rd y)"
    using fl_cases[of x] fl_cases[of y] by auto
  then show ?thesis
  proof cases
    case 1 then show ?thesis by simp
  next
    case 2 then show ?thesis by simp
  next
    case 3 then show ?thesis using xy r by (simp add: fl_PosInf)
  next
    case 4 then show ?thesis using xy r by (simp add: fl_NegInf)
  next
    case 5 then show ?thesis using r by simp
  qed
qed

lemma fl_idem: "fl x = Fin y \<Longrightarrow> fl y = Fin y"
  by (simp add: fl_Fin rd_idem)

lemma fle_trans: "fle a b \<Longrightarrow> fle b c \<Longrightarrow> fle a c"
  by (cases a; cases b; cases c) simp_all

lemma fle_refl: "a \<noteq> NaN \<Longrightarrow> fle a a"
  by (cases a) simp_all

lemma fmax_absorb: "fle b a \<Longrightarrow> fmax a b = a"
  by (cases a; cases b) simp_all

lemma fle_fmax: "a \<noteq> NaN \<Longrightarrow> b \<noteq> NaN \<Longrightarrow> fle a (fmax a b)"
  by (cases a; cases b) simp_all

lemma pow2_nonneg [simp]: "0 \<le> pow2 k"
  using pow2_pos[of k] by linarith

lemma abs_rd: "\<bar>rd x\<bar> = rd \<bar>x\<bar>"
  using rd_minus[of x] rd_nonneg[of x] rd_nonpos[of x]
  by (cases "0 \<le> x") (simp_all add: abs_if)

lemma rd_pow2: "- 1074 \<le> k \<Longrightarrow> rd (pow2 k) = pow2 k"
  using rd_dyadic[of 1 k] by simp

lemma inRange_0 [simp]: "inRange n lo hi 0"
  by (simp add: inRange_def)

lemma inRange_mono:
  "inRange n lo hi x \<Longrightarrow> lo' \<le> lo \<Longrightarrow> hi \<le> hi' \<Longrightarrow> inRange n lo' hi' x"
  unfolding inRange_def using pow2_mono[of lo' lo] pow2_mono[of hi hi'] by fastforce

lemma inRange_rd:
  assumes "inRange n lo hi x" "- 1022 \<le> lo"
  shows "inRange n lo hi (rd x)" "rd (pow2 n * x) = pow2 n * rd x"
    "rd x = 0 \<longleftrightarrow> x = 0" "0 < rd x \<longleftrightarrow> 0 < x"
proof -
  have all: "inRange n lo hi (rd x) \<and> rd (pow2 n * x) = pow2 n * rd x
      \<and> (rd x = 0 \<longleftrightarrow> x = 0) \<and> (0 < rd x \<longleftrightarrow> 0 < x)"
  proof (cases "x = 0")
    case True
    then show ?thesis by simp
  next
    case False
    with assms(1) have b: "pow2 lo \<le> \<bar>x\<bar>" "\<bar>x\<bar> \<le> pow2 hi"
      "pow2 lo \<le> pow2 n * \<bar>x\<bar>" "pow2 n * \<bar>x\<bar> \<le> pow2 hi"
      by (simp_all add: inRange_def)
    have lo: "pow2 (- 1022) \<le> pow2 lo" using assms(2) by (rule pow2_mono)
    have k: "- 1074 \<le> lo" using assms(2) by simp
    have hi: "- 1074 \<le> hi"
    proof (rule ccontr)
      assume "\<not> - 1074 \<le> hi"
      then have "hi < lo" using k by simp
      then have "pow2 hi < pow2 lo" by (rule pow2_less)
      with b(1,2) show False by linarith
    qed
    have sc: "rd (pow2 n * x) = pow2 n * rd x"
      using b(1,3) lo by (intro rd_scale) linarith+
    have l1: "pow2 lo \<le> \<bar>rd x\<bar>"
      using rd_mono[OF b(1)] by (simp add: abs_rd rd_pow2[OF k])
    have u1: "\<bar>rd x\<bar> \<le> pow2 hi"
      using rd_mono[OF b(2)] by (simp add: abs_rd rd_pow2[OF hi])
    have a: "pow2 n * \<bar>rd x\<bar> = rd (pow2 n * \<bar>x\<bar>)"
      using sc abs_rd[of "pow2 n * x"] by (simp add: abs_mult)
    have l2: "pow2 lo \<le> pow2 n * \<bar>rd x\<bar>"
      using rd_mono[OF b(3)] by (simp add: a rd_pow2[OF k])
    have u2: "pow2 n * \<bar>rd x\<bar> \<le> pow2 hi"
      using rd_mono[OF b(4)] by (simp add: a rd_pow2[OF hi])
    have nz: "rd x \<noteq> 0" using l1 pow2_pos[of lo] by auto
    have sg: "0 < rd x \<longleftrightarrow> 0 < x"
      using rd_nonneg[of x] rd_nonpos[of x] nz False by (cases "0 \<le> x") auto
    show ?thesis using l1 u1 l2 u2 sc nz False sg by (simp add: inRange_def)
  qed
  then show "inRange n lo hi (rd x)" "rd (pow2 n * x) = pow2 n * rd x"
    "rd x = 0 \<longleftrightarrow> x = 0" "0 < rd x \<longleftrightarrow> 0 < x" by blast+
qed

lemma inRange_finite:
  assumes "inRange n lo hi x" "hi < 1024"
  shows "\<bar>x\<bar> < pow2 1024" "\<bar>pow2 n * x\<bar> < pow2 1024"
  using assms pow2_less[of hi 1024] pow2_pos[of 1024]
  by (auto simp add: inRange_def abs_mult)

lemma fl_scale:
  assumes "inRange n lo hi x" "- 1022 \<le> lo" "hi < 1024"
  shows "fl x = Fin (rd x)" "fl (pow2 n * x) = Fin (pow2 n * rd x)"
proof -
  have r: "inRange n lo hi (rd x)" using assms(1,2) by (rule inRange_rd)
  show "fl x = Fin (rd x)" using inRange_finite(1)[OF r assms(3)] by (simp add: fl_Fin)
  show "fl (pow2 n * x) = Fin (pow2 n * rd x)"
    using inRange_finite(2)[OF r assms(3)] inRange_rd(2)[OF assms(1,2)] by (simp add: fl_Fin)
qed

lemma pow2_double: "pow2 (2 * k) = pow2 k * pow2 k"
  unfolding mult_2 by (rule pow2_add)

lemma inRange_square:
  assumes "inRange n lo hi d"
  shows "inRange (2 * n) (2 * lo) (2 * hi) (d * d)"
proof (cases "d = 0")
  case True
  then show ?thesis by simp
next
  case False
  with assms have b: "pow2 lo \<le> \<bar>d\<bar>" "\<bar>d\<bar> \<le> pow2 hi"
    "pow2 lo \<le> pow2 n * \<bar>d\<bar>" "pow2 n * \<bar>d\<bar> \<le> pow2 hi"
    by (simp_all add: inRange_def)
  have sq: "0 \<le> a \<Longrightarrow> a \<le> b \<Longrightarrow> a * a \<le> b * b" for a b :: real
    by (rule mult_mono) simp_all
  have d0: "0 \<le> \<bar>d\<bar>" "0 \<le> pow2 n * \<bar>d\<bar>" by simp_all
  have 1: "pow2 (2 * lo) \<le> \<bar>d * d\<bar>"
    unfolding pow2_double abs_mult using b(1) by (intro sq) simp_all
  have 2: "\<bar>d * d\<bar> \<le> pow2 (2 * hi)"
    unfolding pow2_double abs_mult using b(2) d0(1) by (intro sq)
  have e: "pow2 (2 * n) * \<bar>d * d\<bar> = (pow2 n * \<bar>d\<bar>) * (pow2 n * \<bar>d\<bar>)"
    unfolding pow2_double abs_mult by simp
  have 3: "pow2 (2 * lo) \<le> pow2 (2 * n) * \<bar>d * d\<bar>"
    unfolding e unfolding pow2_double using b(3) by (intro sq) simp_all
  have 4: "pow2 (2 * n) * \<bar>d * d\<bar> \<le> pow2 (2 * hi)"
    unfolding e unfolding pow2_double using b(4) d0(2) by (intro sq)
  show ?thesis using 1 2 3 4 unfolding inRange_def by blast
qed

lemma inRange_add:
  assumes "inRange n lo hi s" "inRange n lo hi t" "0 \<le> s" "0 \<le> t"
  shows "inRange n lo (hi + 1) (s + t)"
proof -
  have p: "pow2 (hi + 1) = 2 * pow2 hi" using pow2_add[of hi 1] by (simp add: pow2_def)
  have a: "\<bar>s + t\<bar> = s + t" "\<bar>s\<bar> = s" "\<bar>t\<bar> = t" using assms(3,4) by simp_all
  have m: "pow2 n * (s + t) = pow2 n * s + pow2 n * t" by (simp add: algebra_simps)
  have n: "0 \<le> pow2 n * s" "0 \<le> pow2 n * t" using assms(3,4) by simp_all
  have h: "0 \<le> pow2 hi" by simp
  consider "s = 0" | "t = 0" | "s \<noteq> 0" "t \<noteq> 0" by blast
  then show ?thesis
  proof cases
    case 1
    then show ?thesis using inRange_mono[OF assms(2), of lo "hi + 1"] by simp
  next
    case 2
    then show ?thesis using inRange_mono[OF assms(1), of lo "hi + 1"] by simp
  next
    case 3
    with assms(1,2) have "pow2 lo \<le> s" "s \<le> pow2 hi" "pow2 lo \<le> pow2 n * s"
      "pow2 n * s \<le> pow2 hi" "t \<le> pow2 hi" "pow2 n * t \<le> pow2 hi"
      by (simp_all add: inRange_def a)
    then have "pow2 lo \<le> s + t \<and> s + t \<le> 2 * pow2 hi
        \<and> pow2 lo \<le> pow2 n * s + pow2 n * t \<and> pow2 n * s + pow2 n * t \<le> 2 * pow2 hi"
      using n assms(3,4) by linarith
    then show ?thesis unfolding inRange_def p a m by blast
  qed
qed

lemma sqrt_pow2: "sqrt (pow2 (2 * k)) = pow2 k"
  by (simp add: pow2_double)

lemma inRange_sqrt:
  assumes "inRange (2 * n) (2 * lo) (2 * hi) t" "0 \<le> t"
  shows "inRange n lo hi (sqrt t)" "sqrt (pow2 (2 * n) * t) = pow2 n * sqrt t"
proof -
  show s: "sqrt (pow2 (2 * n) * t) = pow2 n * sqrt t"
    by (simp add: real_sqrt_mult sqrt_pow2)
  show "inRange n lo hi (sqrt t)"
  proof (cases "t = 0")
    case True
    then show ?thesis by simp
  next
    case False
    with assms have b: "pow2 (2 * lo) \<le> t" "t \<le> pow2 (2 * hi)"
      "pow2 (2 * lo) \<le> pow2 (2 * n) * t" "pow2 (2 * n) * t \<le> pow2 (2 * hi)"
      by (simp_all add: inRange_def)
    have "sqrt (pow2 (2 * lo)) \<le> sqrt t" "sqrt t \<le> sqrt (pow2 (2 * hi))"
      "sqrt (pow2 (2 * lo)) \<le> sqrt (pow2 (2 * n) * t)"
      "sqrt (pow2 (2 * n) * t) \<le> sqrt (pow2 (2 * hi))"
      using b by (simp_all only: real_sqrt_le_iff)
    then show ?thesis using assms(2) unfolding s sqrt_pow2 by (simp add: inRange_def)
  qed
qed

lemma inRange_double:
  assumes "inRange n lo hi h"
  shows "inRange n (lo + 1) (hi + 1) (2 * h)"
proof -
  have p: "pow2 (k + 1) = 2 * pow2 k" for k using pow2_add[of k 1] by (simp add: pow2_def)
  show ?thesis using assms unfolding inRange_def p by (auto simp add: abs_mult)
qed


section \<open>Base64 framing\<close>

lemma index_of_nth: "distinct xs \<Longrightarrow> i < length xs \<Longrightarrow> index_of xs (xs ! i) = Some i"
proof (induction xs arbitrary: i)
  case Nil
  then show ?case by simp
next
  case (Cons a xs)
  show ?case
  proof (cases i)
    case 0
    then show ?thesis by simp
  next
    case (Suc j)
    with Cons.prems have "j < length xs" "xs ! j \<in> set xs" "a \<notin> set xs" "distinct xs"
      by auto
    with Cons.IH[of j] Suc show ?thesis by auto
  qed
qed

lemma distinct_b64chars: "distinct b64chars"
  by (simp add: b64chars_def)

lemma length_b64chars: "length b64chars = 64"
  by (simp add: b64chars_def)

lemma b64dec_enc: "i < 64 \<Longrightarrow> b64dec (b64enc i) = Some i"
  by (simp add: b64dec_def b64enc_def index_of_nth distinct_b64chars length_b64chars)

lemma b64enc_in: "i < 64 \<Longrightarrow> b64enc i \<in> set b64chars"
  by (simp add: b64enc_def length_b64chars)

lemma pad_not_b64: "CHR ''='' \<notin> set b64chars"
  by (simp add: b64chars_def)

lemma b64_not_whitespace: "c \<in> set b64chars \<Longrightarrow> \<not> isAsciiWhitespace c"
  by (auto simp add: b64chars_def isAsciiWhitespace_def)

lemma sextets_bound: "\<forall>a \<in> set bs. a < 256 \<Longrightarrow> \<forall>s \<in> set (sextets bs). s < 64"
  by (induction bs rule: sextets.induct) auto

lemma octets_sextets: "\<forall>a \<in> set bs. a < 256 \<Longrightarrow> octets (sextets bs) = bs"
  by (induction bs rule: sextets.induct) auto

lemma length_sextets: "length (sextets bs) = (4 * length bs + 2) div 3"
  by (induction bs rule: sextets.induct) auto

lemma those_list_dec:
  "\<forall>s \<in> set ss. s < 64 \<Longrightarrow> those_list (map b64dec (map b64enc ss)) = Some ss"
  by (induction ss) (simp_all add: b64dec_enc)

lemma strip_none:
  assumes "set body \<subseteq> set b64chars"
  shows "stripPadding body = body"
proof (cases "rev body")
  case Nil
  then show ?thesis by (simp add: stripPadding_def)
next
  case (Cons a r)
  then have "a \<in> set body" by (metis list.set_intros(1) set_rev)
  with assms pad_not_b64 have "a \<noteq> CHR ''=''" by auto
  with Cons show ?thesis by (cases r) (simp_all add: stripPadding_def)
qed

lemma strip_one:
  assumes "set body \<subseteq> set b64chars" "body \<noteq> []" "Suc (length body) mod 4 = 0"
  shows "stripPadding (body @ [CHR ''='']) = body"
proof -
  from assms(2) obtain b r where br: "rev body = b # r" by (cases "rev body") auto
  then have "b \<in> set body" by (metis list.set_intros(1) set_rev)
  with assms pad_not_b64 have "b \<noteq> CHR ''=''" by auto
  moreover from br have "rev r @ [b] = body" by (metis rev.simps(2) rev_rev_ident)
  ultimately show ?thesis using assms(3) by (simp add: stripPadding_def br)
qed

lemma strip_two:
  "Suc (Suc (length body)) mod 4 = 0 \<Longrightarrow> stripPadding (body @ [CHR ''='', CHR ''='']) = body"
  by (simp add: stripPadding_def)

lemma atob_btoa: "atob (btoa binary) = Inr binary"
proof -
  define bs :: "nat list" where "bs = map of_char binary"
  define ss where "ss = sextets bs"
  define body where "body = map b64enc ss"
  define n where "n = length binary"
  have bs256: "\<forall>a \<in> set bs. a < 256" by (auto simp: bs_def)
  have ss64: "\<forall>s \<in> set ss. s < 64" unfolding ss_def using sextets_bound[OF bs256] .
  have body_sub: "set body \<subseteq> set b64chars"
    unfolding body_def using ss64 by (auto simp: b64enc_in)
  have len: "length body = (4 * n + 2) div 3"
    by (simp add: body_def ss_def length_sextets bs_def n_def)
  have btoa_eq: "btoa binary = body @ replicate ((3 - n mod 3) mod 3) (CHR ''='')"
    by (simp add: btoa_def body_def ss_def bs_def n_def)
  have nows: "filter (\<lambda>c. \<not> isAsciiWhitespace c) (btoa binary) = btoa binary"
  proof -
    have "\<not> isAsciiWhitespace (CHR ''='')" by (simp add: isAsciiWhitespace_def)
    with body_sub b64_not_whitespace show ?thesis by (auto simp: btoa_eq filter_id_conv)
  qed
  have strip: "stripPadding (btoa binary) = body"
  proof -
    consider "n mod 3 = 0" | "n mod 3 = 1" | "n mod 3 = 2" by linarith
    then show ?thesis
    proof cases
      case 1
      then show ?thesis using strip_none[OF body_sub] by (simp add: btoa_eq)
    next
      case 2
      then have k: "(3 - n mod 3) mod 3 = Suc (Suc 0)" by simp
      have "replicate ((3 - n mod 3) mod 3) (CHR ''='') = [CHR ''='', CHR ''='']"
        unfolding k by simp
      moreover from 2 have "Suc (Suc (length body)) mod 4 = 0" unfolding len by presburger
      ultimately show ?thesis using strip_two by (simp add: btoa_eq)
    next
      case 3
      then have "0 < length body" unfolding len by presburger
      then have "body \<noteq> []" by auto
      moreover from 3 have "replicate ((3 - n mod 3) mod 3) (CHR ''='') = [CHR ''='']"
        by simp
      moreover from 3 have "Suc (length body) mod 4 = 0" unfolding len by presburger
      ultimately show ?thesis using strip_one[OF body_sub] by (simp add: btoa_eq)
    qed
  qed
  have "(4 * n + 2) div 3 mod 4 \<noteq> 1" by presburger
  then have mod4: "length body mod 4 \<noteq> Suc 0" using len by simp
  have dec: "those_list (map b64dec body) = Some ss"
    unfolding body_def using those_list_dec[OF ss64] .
  have bytes_back: "map char_of (octets ss) = binary"
    unfolding ss_def using octets_sextets[OF bs256] by (simp add: bs_def comp_def)
  show ?thesis
    by (simp add: atob_def nows strip mod4 dec bytes_back)
qed

lemma byte_of_char_of: "(of_nat (of_char (char_of (unat b) :: char)) :: byte) = b"
proof -
  have "unat b < 256" using unsigned_less[of b] by simp
  then show ?thesis by simp
qed

text \<open>
  Claim C10. Decoding the base64 text that \<open>encode\<close> produces for a byte array succeeds
  and gives back the same byte array: the same length and the same byte at every index.
\<close>

theorem decode_encode_roundtrip: "decode (encode bytes) = Inr bytes"
proof -
  have "map (\<lambda>c. (of_nat (of_char c) :: byte)) (map (\<lambda>b. char_of (unat b)) bytes) = bytes"
    by (simp only: map_map comp_def byte_of_char_of map_ident)
  then show ?thesis by (simp add: decode_def encode_def atob_btoa)
qed

section \<open>Eye aspect ratio\<close>

lemma fsub_scale:
  assumes "inRange n lo hi (x1 - x2)" "- 1022 \<le> lo" "hi < 1024"
  shows "fsub (Fin x1) (Fin x2) = Fin (rd (x1 - x2))"
    "fsub (Fin (pow2 n * x1)) (Fin (pow2 n * x2)) = Fin (pow2 n * rd (x1 - x2))"
proof -
  have e: "pow2 n * x1 - pow2 n * x2 = pow2 n * (x1 - x2)" by (simp add: algebra_simps)
  show "fsub (Fin x1) (Fin x2) = Fin (rd (x1 - x2))"
    using fl_scale(1)[OF assms] by (simp add: fsub_def)
  show "fsub (Fin (pow2 n * x1)) (Fin (pow2 n * x2)) = Fin (pow2 n * rd (x1 - x2))"
    using fl_scale(2)[OF assms] by (simp add: fsub_def e)
qed

lemma fsquare_scale:
  assumes "inRange n lo hi d" "- 511 \<le> lo" "hi \<le> 511"
  shows "fsquare (Fin d) = Fin (rd (d * d))"
    "fsquare (Fin (pow2 n * d)) = Fin (pow2 (2 * n) * rd (d * d))"
    "inRange (2 * n) (2 * lo) (2 * hi) (rd (d * d))" "0 \<le> rd (d * d)"
proof -
  have r: "inRange (2 * n) (2 * lo) (2 * hi) (d * d)" using assms(1) by (rule inRange_square)
  have b: "- 1022 \<le> 2 * lo" "2 * hi < 1024" using assms(2,3) by simp_all
  have e: "pow2 n * d * (pow2 n * d) = pow2 (2 * n) * (d * d)" by (simp add: pow2_double)
  show "fsquare (Fin d) = Fin (rd (d * d))"
    using fl_scale(1)[OF r b] by (simp add: fsquare_def)
  show "fsquare (Fin (pow2 n * d)) = Fin (pow2 (2 * n) * rd (d * d))"
    using fl_scale(2)[OF r b] by (simp add: fsquare_def e)
  show "inRange (2 * n) (2 * lo) (2 * hi) (rd (d * d))" using r b(1) by (rule inRange_rd)
  show "0 \<le> rd (d * d)" by (rule rd_nonneg) simp
qed

lemma fadd_scale:
  assumes "inRange m lo hi s" "inRange m lo hi t" "0 \<le> s" "0 \<le> t" "- 1022 \<le> lo" "hi < 1023"
  shows "fadd (Fin s) (Fin t) = Fin (rd (s + t))"
    "fadd (Fin (pow2 m * s)) (Fin (pow2 m * t)) = Fin (pow2 m * rd (s + t))"
    "inRange m lo (hi + 1) (rd (s + t))" "0 \<le> rd (s + t)"
proof -
  have r: "inRange m lo (hi + 1) (s + t)" using assms(1-4) by (rule inRange_add)
  have b: "hi + 1 < 1024" using assms(6) by simp
  have e: "pow2 m * s + pow2 m * t = pow2 m * (s + t)" by (simp add: algebra_simps)
  show "fadd (Fin s) (Fin t) = Fin (rd (s + t))"
    using fl_scale(1)[OF r assms(5) b] by simp
  show "fadd (Fin (pow2 m * s)) (Fin (pow2 m * t)) = Fin (pow2 m * rd (s + t))"
    using fl_scale(2)[OF r assms(5) b] by (simp add: e)
  show "inRange m lo (hi + 1) (rd (s + t))" using r assms(5) by (rule inRange_rd)
  show "0 \<le> rd (s + t)" using assms(3,4) by (intro rd_nonneg) simp
qed

lemma fsqrt_scale:
  assumes "inRange (2 * n) (2 * lo) (2 * hi) t" "0 \<le> t" "- 1022 \<le> lo" "hi < 1024"
  shows "fsqrt (Fin t) = Fin (rd (sqrt t))"
    "fsqrt (Fin (pow2 (2 * n) * t)) = Fin (pow2 n * rd (sqrt t))"
    "inRange n lo hi (rd (sqrt t))" "0 \<le> rd (sqrt t)"
proof -
  have r: "inRange n lo hi (sqrt t)" using assms(1,2) by (rule inRange_sqrt)
  have e: "sqrt (pow2 (2 * n) * t) = pow2 n * sqrt t" using assms(1,2) by (rule inRange_sqrt)
  have p: "\<not> pow2 (2 * n) * t < 0" using assms(2) by (simp add: not_less)
  show "fsqrt (Fin t) = Fin (rd (sqrt t))"
    using fl_scale(1)[OF r assms(3,4)] assms(2) by simp
  show "fsqrt (Fin (pow2 (2 * n) * t)) = Fin (pow2 n * rd (sqrt t))"
    using fl_scale(2)[OF r assms(3,4)] p by (simp only: fsqrt.simps e if_False)
  show "inRange n lo hi (rd (sqrt t))" using r assms(3) by (rule inRange_rd)
  show "0 \<le> rd (sqrt t)" using assms(2) by (intro rd_nonneg) simp
qed

lemma fdiv_scale: "fdiv (Fin (pow2 n * a)) (Fin (pow2 n * b)) = fdiv (Fin a) (Fin b)"
proof -
  have "\<not> pow2 n < 0" using pow2_pos[of n] by linarith
  then show ?thesis by (simp add: zero_less_mult_iff mult_less_0_iff)
qed

lemma isFiniteE:
  assumes "isFinite a"
  obtains x where "a = Fin x" "rd x = x" "val a = x"
  using assms by (cases a) (auto simp add: isFinite_def val_def fl_Fin)

lemma scale_point:
  assumes "isFinite (px p)" "isFinite (py p)"
    "inRange n (- 500) 500 (val (px p))" "inRange n (- 500) 500 (val (py p))"
  shows "p = \<lparr>px = Fin (val (px p)), py = Fin (val (py p))\<rparr>"
    "scale (Fin (pow2 n)) p = \<lparr>px = Fin (pow2 n * val (px p)), py = Fin (pow2 n * val (py p))\<rparr>"
proof -
  from assms(1) obtain x where x: "px p = Fin x" "rd x = x" "val (px p) = x" by (rule isFiniteE)
  from assms(2) obtain y where y: "py p = Fin y" "rd y = y" "val (py p) = y" by (rule isFiniteE)
  show "p = \<lparr>px = Fin (val (px p)), py = Fin (val (py p))\<rparr>" using x y by simp
  have "fl (pow2 n * x) = Fin (pow2 n * x)" "fl (pow2 n * y) = Fin (pow2 n * y)"
    using fl_scale(2)[of n "- 500" 500 x] fl_scale(2)[of n "- 500" 500 y] assms(3,4) x y
    by simp_all
  then show "scale (Fin (pow2 n)) p
      = \<lparr>px = Fin (pow2 n * val (px p)), py = Fin (pow2 n * val (py p))\<rparr>"
    using x y by (simp add: scale_def)
qed

lemma dist_scale:
  assumes dx: "inRange n (- 500) 500 (x1 - x2)" and dy: "inRange n (- 500) 500 (y1 - y2)"
  shows "\<exists>r. getEuclideanDistance (Some \<lparr>px = Fin x1, py = Fin y1\<rparr>)
                (Some \<lparr>px = Fin x2, py = Fin y2\<rparr>) = Inr (Fin r)
           \<and> getEuclideanDistance (Some \<lparr>px = Fin (pow2 n * x1), py = Fin (pow2 n * y1)\<rparr>)
                (Some \<lparr>px = Fin (pow2 n * x2), py = Fin (pow2 n * y2)\<rparr>) = Inr (Fin (pow2 n * r))
           \<and> inRange n (- 500) 501 r \<and> 0 \<le> r"
proof -
  define a where "a = rd (x1 - x2)"
  define b where "b = rd (y1 - y2)"
  define s where "s = rd (a * a)"
  define t where "t = rd (b * b)"
  define u where "u = rd (s + t)"
  define r where "r = rd (sqrt u)"
  have ra: "inRange n (- 500) 500 a" unfolding a_def using dx by (rule inRange_rd) simp
  have rb: "inRange n (- 500) 500 b" unfolding b_def using dy by (rule inRange_rd) simp
  have c: "(- 1022 :: int) \<le> - 500" "(500 :: int) < 1024" "(- 511 :: int) \<le> - 500"
    "(500 :: int) \<le> 511" "(- 1022 :: int) \<le> 2 * - 500" "(2 :: int) * 500 < 1023"
    "(501 :: int) < 1024"
    by simp_all
  note A = fsub_scale[OF dx c(1,2), folded a_def]
  note B = fsub_scale[OF dy c(1,2), folded b_def]
  note S = fsquare_scale[OF ra c(3,4), folded s_def]
  note T = fsquare_scale[OF rb c(3,4), folded t_def]
  have rs: "inRange (2 * n) (2 * - 500) (2 * 500) s" and s0: "0 \<le> s" using S(3,4) by simp_all
  have rt: "inRange (2 * n) (2 * - 500) (2 * 500) t" and t0: "0 \<le> t" using T(3,4) by simp_all
  note U = fadd_scale[OF rs rt s0 t0 c(5,6), folded u_def]
  have ru: "inRange (2 * n) (2 * - 500) (2 * 501) u"
    using inRange_mono[OF U(3), of "2 * - 500" "2 * 501"] by simp
  have u0: "0 \<le> u" using U(4) by simp
  note R = fsqrt_scale[OF ru u0 c(1,7), folded r_def]
  have 1: "getEuclideanDistance (Some \<lparr>px = Fin x1, py = Fin y1\<rparr>)
                (Some \<lparr>px = Fin x2, py = Fin y2\<rparr>) = Inr (Fin r)"
    using A(1) B(1) S(1) T(1) U(1) R(1) by simp
  have 2: "getEuclideanDistance (Some \<lparr>px = Fin (pow2 n * x1), py = Fin (pow2 n * y1)\<rparr>)
                (Some \<lparr>px = Fin (pow2 n * x2), py = Fin (pow2 n * y2)\<rparr>) = Inr (Fin (pow2 n * r))"
    using A(2) B(2) S(2) T(2) U(2) R(2) by simp
  show ?thesis using 1 2 R(3,4) by blast
qed

lemma ear6:
  "getEyeAspectRatio [a, b, c, d, e, f] =
     Inr (fdiv (fadd (fsqrt (fadd (fsquare (fsub (px b) (px f))) (fsquare (fsub (py b) (py f)))))
                     (fsqrt (fadd (fsquare (fsub (px c) (px e))) (fsquare (fsub (py c) (py e))))))
               (fmul (Fin 2)
                  (fsqrt (fadd (fsquare (fsub (px a) (px d))) (fsquare (fsub (py a) (py d)))))))"
  by (simp add: getEyeAspectRatio_def at_index_def eval_nat_numeral)

lemma fdiv_eval: "b \<noteq> 0 \<Longrightarrow> fl (a / b) = Fin c \<Longrightarrow> fdiv (Fin a) (Fin b) = Fin c"
  by simp

lemma fsqrt_between:
  assumes "fl lo = Fin y" "fl hi = Fin y" "0 \<le> lo" "lo * lo \<le> x" "x \<le> hi * hi" "0 \<le> hi"
  shows "fsqrt (Fin x) = Fin y"
proof -
  have x0: "0 \<le> x" using assms(3,4) mult_nonneg_nonneg[of lo lo] by linarith
  have "sqrt (lo * lo) \<le> sqrt x" "sqrt x \<le> sqrt (hi * hi)"
    using assms(4,5) by (simp_all only: real_sqrt_le_iff)
  then have b: "lo \<le> sqrt x" "sqrt x \<le> hi" using assms(3,6) by simp_all
  have "rd lo \<le> rd (sqrt x)" "rd (sqrt x) \<le> rd hi" using b by (simp_all add: rd_mono)
  moreover have "rd lo = y" "rd hi = y" "\<bar>y\<bar> < pow2 1024"
    using assms(1,2) by (simp_all add: fl_Fin)
  ultimately have "rd (sqrt x) = y" by linarith
  then show ?thesis using x0 \<open>\<bar>y\<bar> < pow2 1024\<close> by (simp add: fl_Fin not_less)
qed

lemma ear_eval_1: "fsub (Fin 1) (Fin 1) = Fin 0"
  by (simp add: fsub_def)

lemma ear_eval_2: "fsub (Fin 1) (Fin 0) = Fin 1"
  unfolding fsub_def fneg.simps fadd.simps
  by (rule fl_normal[where e = "0"]) (simp_all add: pow2_def rne_def)

lemma ear_eval_3: "fsquare (Fin 0) = Fin 0"
  by (simp add: fsquare_def)

lemma ear_eval_4: "fsquare (Fin 1) = Fin 1"
  unfolding fsquare_def fmul.simps
  by (rule fl_normal[where e = "0"]) (simp_all add: pow2_def rne_def)

lemma ear_eval_5: "fadd (Fin 0) (Fin 1) = Fin 1"
  unfolding fadd.simps
  by (rule fl_normal[where e = "0"]) (simp_all add: pow2_def rne_def)

lemma ear_eval_6: "fsqrt (Fin 1) = Fin 1"
  proof (rule fsqrt_between[where lo = "1" and hi = "1"])
  show "fl (1) = Fin 1"
    by (rule fl_normal[where e = "0"]) (simp_all add: pow2_def rne_def)
qed simp_all

lemma ear_eval_7: "fsub (Fin 3) (Fin 3) = Fin 0"
  by (simp add: fsub_def)

lemma ear_eval_8: "fsub (Fin 0) (Fin 4) = Fin (- 4)"
  unfolding fsub_def fneg.simps fadd.simps
  by (rule fl_normal[where e = "2"]) (simp_all add: pow2_def rne_def)

lemma ear_eval_9: "fsub (Fin 0) (Fin 1) = Fin (- 1)"
  unfolding fsub_def fneg.simps fadd.simps
  by (rule fl_normal[where e = "0"]) (simp_all add: pow2_def rne_def)

lemma ear_eval_10: "fsquare (Fin (- 4)) = Fin 16"
  unfolding fsquare_def fmul.simps
  by (rule fl_normal[where e = "4"]) (simp_all add: pow2_def rne_def)

lemma ear_eval_11: "fsquare (Fin (- 1)) = Fin 1"
  unfolding fsquare_def fmul.simps
  by (rule fl_normal[where e = "0"]) (simp_all add: pow2_def rne_def)

lemma ear_eval_12: "fadd (Fin 16) (Fin 1) = Fin 17"
  unfolding fadd.simps
  by (rule fl_normal[where e = "4"]) (simp_all add: pow2_def rne_def)

lemma ear_eval_13: "fsqrt (Fin 17) = Fin (4642204239785223 / 1125899906842624)"
  proof (rule fsqrt_between[where lo = "37137633918281781 / 9007199254740992" and hi = "37137633918281787 / 9007199254740992"])
  show "fl (37137633918281781 / 9007199254740992) = Fin (4642204239785223 / 1125899906842624)"
    by (rule fl_normal[where e = "2"]) (simp_all add: pow2_def rne_def)
  show "fl (37137633918281787 / 9007199254740992) = Fin (4642204239785223 / 1125899906842624)"
    by (rule fl_normal[where e = "2"]) (simp_all add: pow2_def rne_def)
qed simp_all

lemma ear_eval_14: "fadd (Fin 1) (Fin 1) = Fin 2"
  unfolding fadd.simps
  by (rule fl_normal[where e = "1"]) (simp_all add: pow2_def rne_def)

lemma ear_eval_15: "fmul (Fin 2) (Fin (4642204239785223 / 1125899906842624)) = Fin (4642204239785223 / 562949953421312)"
  unfolding fmul.simps
  by (rule fl_normal[where e = "3"]) (simp_all add: pow2_def rne_def)

lemma ear_eval_16: "fdiv (Fin 2) (Fin (4642204239785223 / 562949953421312)) = Fin (2184566701075399 / 9007199254740992)"
  by (rule fdiv_eval, simp, rule fl_normal[where e = "- 3"]) (simp_all add: pow2_def rne_def)

lemma ear_eval_17: "fadd (Fin 0) (Fin (3602879701896397 / 36028797018963968)) = Fin (3602879701896397 / 36028797018963968)"
  unfolding fadd.simps
  by (rule fl_normal[where e = "- 4"]) (simp_all add: pow2_def rne_def)

lemma ear_eval_18: "fadd (Fin 0) (Fin 0) = Fin 0"
  by (simp add: fsub_def)

lemma ear_eval_19: "fadd (Fin 1) (Fin (3602879701896397 / 36028797018963968)) = Fin (2476979795053773 / 2251799813685248)"
  unfolding fadd.simps
  by (rule fl_normal[where e = "0"]) (simp_all add: pow2_def rne_def)

lemma ear_eval_20: "fadd (Fin 1) (Fin 0) = Fin 1"
  unfolding fadd.simps
  by (rule fl_normal[where e = "0"]) (simp_all add: pow2_def rne_def)

lemma ear_eval_21: "fadd (Fin 3) (Fin (3602879701896397 / 36028797018963968)) = Fin (6980579422424269 / 2251799813685248)"
  unfolding fadd.simps
  by (rule fl_normal[where e = "1"]) (simp_all add: pow2_def rne_def)

lemma ear_eval_22: "fadd (Fin 4) (Fin (3602879701896397 / 36028797018963968)) = Fin (2308094809027379 / 562949953421312)"
  unfolding fadd.simps
  by (rule fl_normal[where e = "2"]) (simp_all add: pow2_def rne_def)

lemma ear_eval_23: "fsub (Fin (2476979795053773 / 2251799813685248)) (Fin (2476979795053773 / 2251799813685248)) = Fin 0"
  by (simp add: fsub_def)

lemma ear_eval_24: "fsub (Fin (6980579422424269 / 2251799813685248)) (Fin (6980579422424269 / 2251799813685248)) = Fin 0"
  by (simp add: fsub_def)

lemma ear_eval_25: "fsub (Fin (3602879701896397 / 36028797018963968)) (Fin (2308094809027379 / 562949953421312)) = Fin (- (9007199254740991 / 2251799813685248))"
  unfolding fsub_def fneg.simps fadd.simps
  by (rule fl_normal[where e = "1"]) (simp_all add: pow2_def rne_def)

lemma ear_eval_26: "fsquare (Fin (- (9007199254740991 / 2251799813685248))) = Fin (4503599627370495 / 281474976710656)"
  unfolding fsquare_def fmul.simps
  by (rule fl_normal[where e = "3"]) (simp_all add: pow2_def rne_def)

lemma ear_eval_27: "fadd (Fin (4503599627370495 / 281474976710656)) (Fin 1) = Fin (4785074604081151 / 281474976710656)"
  unfolding fadd.simps
  by (rule fl_normal[where e = "4"]) (simp_all add: pow2_def rne_def)

lemma ear_eval_28: "fsqrt (Fin (4785074604081151 / 281474976710656)) = Fin (2321102119892611 / 562949953421312)"
  proof (rule fsqrt_between[where lo = "297101071346254177 / 72057594037927936" and hi = "297101071346254239 / 72057594037927936"])
  show "fl (297101071346254177 / 72057594037927936) = Fin (2321102119892611 / 562949953421312)"
    by (rule fl_normal[where e = "2"]) (simp_all add: pow2_def rne_def)
  show "fl (297101071346254239 / 72057594037927936) = Fin (2321102119892611 / 562949953421312)"
    by (rule fl_normal[where e = "2"]) (simp_all add: pow2_def rne_def)
qed simp_all

lemma ear_eval_29: "fmul (Fin 2) (Fin (2321102119892611 / 562949953421312)) = Fin (2321102119892611 / 281474976710656)"
  unfolding fmul.simps
  by (rule fl_normal[where e = "3"]) (simp_all add: pow2_def rne_def)

lemma ear_eval_30: "fdiv (Fin 2) (Fin (2321102119892611 / 281474976710656)) = Fin (4369133402150799 / 18014398509481984)"
  by (rule fdiv_eval, simp, rule fl_normal[where e = "- 3"]) (simp_all add: pow2_def rne_def)

lemma ear_eval_31: "fmul (Fin 3) (Fin 0) = Fin 0"
  by (simp add: fsub_def)

lemma ear_eval_32: "fmul (Fin 3) (Fin 1) = Fin 3"
  unfolding fmul.simps
  by (rule fl_normal[where e = "1"]) (simp_all add: pow2_def rne_def)

lemma ear_eval_33: "fmul (Fin 3) (Fin 3) = Fin 9"
  unfolding fmul.simps
  by (rule fl_normal[where e = "3"]) (simp_all add: pow2_def rne_def)

lemma ear_eval_34: "fmul (Fin 3) (Fin 4) = Fin 12"
  unfolding fmul.simps
  by (rule fl_normal[where e = "3"]) (simp_all add: pow2_def rne_def)

lemma ear_eval_35: "fsub (Fin 3) (Fin 0) = Fin 3"
  unfolding fsub_def fneg.simps fadd.simps
  by (rule fl_normal[where e = "1"]) (simp_all add: pow2_def rne_def)

lemma ear_eval_36: "fsquare (Fin 3) = Fin 9"
  unfolding fsquare_def fmul.simps
  by (rule fl_normal[where e = "3"]) (simp_all add: pow2_def rne_def)

lemma ear_eval_37: "fadd (Fin 0) (Fin 9) = Fin 9"
  unfolding fadd.simps
  by (rule fl_normal[where e = "3"]) (simp_all add: pow2_def rne_def)

lemma ear_eval_38: "fsqrt (Fin 9) = Fin 3"
  proof (rule fsqrt_between[where lo = "3" and hi = "3"])
  show "fl (3) = Fin 3"
    by (rule fl_normal[where e = "1"]) (simp_all add: pow2_def rne_def)
qed simp_all

lemma ear_eval_39: "fsub (Fin 9) (Fin 9) = Fin 0"
  by (simp add: fsub_def)

lemma ear_eval_40: "fsub (Fin 0) (Fin 12) = Fin (- 12)"
  unfolding fsub_def fneg.simps fadd.simps
  by (rule fl_normal[where e = "3"]) (simp_all add: pow2_def rne_def)

lemma ear_eval_41: "fsub (Fin 0) (Fin 3) = Fin (- 3)"
  unfolding fsub_def fneg.simps fadd.simps
  by (rule fl_normal[where e = "1"]) (simp_all add: pow2_def rne_def)

lemma ear_eval_42: "fsquare (Fin (- 12)) = Fin 144"
  unfolding fsquare_def fmul.simps
  by (rule fl_normal[where e = "7"]) (simp_all add: pow2_def rne_def)

lemma ear_eval_43: "fsquare (Fin (- 3)) = Fin 9"
  unfolding fsquare_def fmul.simps
  by (rule fl_normal[where e = "3"]) (simp_all add: pow2_def rne_def)

lemma ear_eval_44: "fadd (Fin 144) (Fin 9) = Fin 153"
  unfolding fadd.simps
  by (rule fl_normal[where e = "7"]) (simp_all add: pow2_def rne_def)

lemma ear_eval_45: "fsqrt (Fin 153) = Fin (3481653179838917 / 281474976710656)"
  proof (rule fsqrt_between[where lo = "222825803509690673 / 18014398509481984" and hi = "222825803509690703 / 18014398509481984"])
  show "fl (222825803509690673 / 18014398509481984) = Fin (3481653179838917 / 281474976710656)"
    by (rule fl_normal[where e = "3"]) (simp_all add: pow2_def rne_def)
  show "fl (222825803509690703 / 18014398509481984) = Fin (3481653179838917 / 281474976710656)"
    by (rule fl_normal[where e = "3"]) (simp_all add: pow2_def rne_def)
qed simp_all

lemma ear_eval_46: "fadd (Fin 3) (Fin 3) = Fin 6"
  unfolding fadd.simps
  by (rule fl_normal[where e = "2"]) (simp_all add: pow2_def rne_def)

lemma ear_eval_47: "fmul (Fin 2) (Fin (3481653179838917 / 281474976710656)) = Fin (3481653179838917 / 140737488355328)"
  unfolding fmul.simps
  by (rule fl_normal[where e = "4"]) (simp_all add: pow2_def rne_def)

lemma ear_eval_48: "fdiv (Fin 6) (Fin (3481653179838917 / 140737488355328)) = Fin (8738266804301597 / 36028797018963968)"
  by (rule fdiv_eval, simp, rule fl_normal[where e = "- 3"]) (simp_all add: pow2_def rne_def)

lemmas ear_evals = ear_eval_1 ear_eval_2 ear_eval_3 ear_eval_4 ear_eval_5 ear_eval_6 ear_eval_7 ear_eval_8 ear_eval_9 ear_eval_10 ear_eval_11 ear_eval_12 ear_eval_13 ear_eval_14 ear_eval_15 ear_eval_16 ear_eval_17 ear_eval_18 ear_eval_19 ear_eval_20 ear_eval_21 ear_eval_22 ear_eval_23 ear_eval_24 ear_eval_25 ear_eval_26 ear_eval_27 ear_eval_28 ear_eval_29 ear_eval_30 ear_eval_31 ear_eval_32 ear_eval_33 ear_eval_34 ear_eval_35 ear_eval_36 ear_eval_37 ear_eval_38 ear_eval_39 ear_eval_40 ear_eval_41 ear_eval_42 ear_eval_43 ear_eval_44 ear_eval_45 ear_eval_46 ear_eval_47 ear_eval_48

lemma ear_slantedEye:
  "getEyeAspectRatio slantedEye = Inr (Fin (2184566701075399 / 9007199254740992))"
  unfolding slantedEye_def ear6 Point.simps by (simp only: ear_evals)

lemma ear_slantedEye_translated:
  "getEyeAspectRatio (map (translate (Fin (3602879701896397 / 36028797018963968)) (Fin 0)) slantedEye) = Inr (Fin (4369133402150799 / 18014398509481984))"
  unfolding slantedEye_def list.map translate_def ear6 Point.simps by (simp only: ear_evals)

lemma ear_slantedEye_scaled:
  "getEyeAspectRatio (map (scale (Fin 3)) slantedEye) = Inr (Fin (8738266804301597 / 36028797018963968))"
  unfolding slantedEye_def list.map scale_def ear6 Point.simps by (simp only: ear_evals)

lemma ear_short: "length eye < 6 \<Longrightarrow> getEyeAspectRatio eye = Inl TypeError"
  by (simp add: getEyeAspectRatio_def at_index_def Let_def split: sum.splits)

lemma list6:
  assumes "\<not> length eye < 6"
  obtains a b c d e f rest where "eye = a # b # c # d # e # f # rest"
proof -
  from assms have "6 \<le> length eye" by simp
  then have "\<exists>a b c d e f rest. eye = a # b # c # d # e # f # rest"
    by (auto simp add: eval_nat_numeral Suc_le_length_iff)
  then show ?thesis using that by blast
qed

lemma ear6_dist:
  assumes "getEuclideanDistance (Some b) (Some f) = Inr v1"
    "getEuclideanDistance (Some c) (Some e) = Inr v2"
    "getEuclideanDistance (Some a) (Some d) = Inr h"
  shows "getEyeAspectRatio (a # b # c # d # e # f # rest)
         = Inr (fdiv (fadd v1 v2) (fmul (Fin 2) h))"
  using assms
  by (simp add: getEyeAspectRatio_def at_index_def eval_nat_numeral
      del: getEuclideanDistance.simps)

lemma dist_Inr: "\<exists>v. getEuclideanDistance (Some p) (Some q) = Inr v"
  by simp

lemma ear_spec6: "length eye = 6 \<Longrightarrow> getEyeAspectRatio eye = Inr (EAR_spec eye)"
proof -
  assume l: "length eye = 6"
  then have "\<not> length eye < 6" by simp
  then obtain a b c d e f rest where eye: "eye = a # b # c # d # e # f # rest" by (rule list6)
  with l have "rest = []" by simp
  then have eye6: "eye = [a, b, c, d, e, f]" using eye by simp
  show ?thesis unfolding eye6 ear6 by (simp add: EAR_spec_def dist_spec_def eval_nat_numeral)
qed

lemma exactlyTranslatedE:
  assumes "exactlyTranslated dx dy p"
  obtains x y where "p = \<lparr>px = Fin x, py = Fin y\<rparr>"
    "translate (Fin dx) (Fin dy) p = \<lparr>px = Fin (x + dx), py = Fin (y + dy)\<rparr>"
proof -
  from assms have a: "fadd (px p) (Fin dx) = Fin (val (px p) + dx)"
    "fadd (py p) (Fin dy) = Fin (val (py p) + dy)"
    by (simp_all add: exactlyTranslated_def translate_def)
  from a(1) obtain x where x: "px p = Fin x" by (cases "px p") simp_all
  from a(2) obtain y where y: "py p = Fin y" by (cases "py p") simp_all
  have 1: "p = \<lparr>px = Fin x, py = Fin y\<rparr>" using x y by simp
  have 2: "translate (Fin dx) (Fin dy) p = \<lparr>px = Fin (x + dx), py = Fin (y + dy)\<rparr>"
    using assms x y by (simp add: exactlyTranslated_def val_def)
  from 1 2 show ?thesis by (rule that)
qed

lemma dist_translate:
  assumes "exactlyTranslated dx dy p" "exactlyTranslated dx dy q"
  shows "getEuclideanDistance (Some (translate (Fin dx) (Fin dy) p))
           (Some (translate (Fin dx) (Fin dy) q))
         = getEuclideanDistance (Some p) (Some q)"
proof -
  from assms(1) obtain x1 y1 where p: "p = \<lparr>px = Fin x1, py = Fin y1\<rparr>"
    "translate (Fin dx) (Fin dy) p = \<lparr>px = Fin (x1 + dx), py = Fin (y1 + dy)\<rparr>"
    by (rule exactlyTranslatedE)
  from assms(2) obtain x2 y2 where q: "q = \<lparr>px = Fin x2, py = Fin y2\<rparr>"
    "translate (Fin dx) (Fin dy) q = \<lparr>px = Fin (x2 + dx), py = Fin (y2 + dy)\<rparr>"
    by (rule exactlyTranslatedE)
  show ?thesis unfolding p(2) q(2) unfolding p(1) q(1) by (simp add: fsub_def)
qed

lemma ear_translate:
  assumes "list_all (exactlyTranslated dx dy) eye"
  shows "getEyeAspectRatio (map (translate (Fin dx) (Fin dy)) eye) = getEyeAspectRatio eye"
proof (cases "length eye < 6")
  case True
  then show ?thesis by (simp add: ear_short)
next
  case False
  then obtain a b c d e f rest where eye: "eye = a # b # c # d # e # f # rest" by (rule list6)
  from assms have t: "exactlyTranslated dx dy a" "exactlyTranslated dx dy b"
    "exactlyTranslated dx dy c" "exactlyTranslated dx dy d" "exactlyTranslated dx dy e"
    "exactlyTranslated dx dy f"
    by (simp_all add: eye)
  obtain v1 v2 h where v: "getEuclideanDistance (Some b) (Some f) = Inr v1"
    "getEuclideanDistance (Some c) (Some e) = Inr v2"
    "getEuclideanDistance (Some a) (Some d) = Inr h"
    using dist_Inr by blast
  have "getEyeAspectRatio (map (translate (Fin dx) (Fin dy)) eye)
        = Inr (fdiv (fadd v1 v2) (fmul (Fin 2) h))"
    unfolding eye list.map
    by (rule ear6_dist) (simp_all only: dist_translate t v)
  also have "\<dots> = getEyeAspectRatio eye"
    unfolding eye using v by (rule ear6_dist[symmetric])
  finally show ?thesis .
qed

lemma ear_scale:
  assumes "scalable n eye"
  shows "getEyeAspectRatio (map (scale (Fin (pow2 n))) eye) = getEyeAspectRatio eye"
proof (cases "length eye < 6")
  case True
  then show ?thesis by (simp add: ear_short)
next
  case False
  then obtain a b c d e f rest where eye: "eye = a # b # c # d # e # f # rest" by (rule list6)
  let ?k = "Fin (pow2 n)"
  have pt: "p = \<lparr>px = Fin (val (px p)), py = Fin (val (py p))\<rparr>
      \<and> scale ?k p = \<lparr>px = Fin (pow2 n * val (px p)), py = Fin (pow2 n * val (py p))\<rparr>"
    if "p \<in> set eye" for p
    using assms that scale_point[of p n] by (simp add: scalable_def list_all_iff)
  have df: "inRange n (- 500) 500 (val (px p) - val (px q))
      \<and> inRange n (- 500) 500 (val (py p) - val (py q))"
    if "p \<in> set eye" "q \<in> set eye" for p q
    using assms that by (simp add: scalable_def list_all_iff)
  have ds: "\<exists>r. getEuclideanDistance (Some p) (Some q) = Inr (Fin r)
      \<and> getEuclideanDistance (Some (scale ?k p)) (Some (scale ?k q)) = Inr (Fin (pow2 n * r))
      \<and> inRange n (- 500) 501 r \<and> 0 \<le> r"
    if "p \<in> set eye" "q \<in> set eye" for p q
  proof -
    from pt[OF that(1)] have p: "p = \<lparr>px = Fin (val (px p)), py = Fin (val (py p))\<rparr>"
      "scale ?k p = \<lparr>px = Fin (pow2 n * val (px p)), py = Fin (pow2 n * val (py p))\<rparr>"
      by blast+
    from pt[OF that(2)] have q: "q = \<lparr>px = Fin (val (px q)), py = Fin (val (py q))\<rparr>"
      "scale ?k q = \<lparr>px = Fin (pow2 n * val (px q)), py = Fin (pow2 n * val (py q))\<rparr>"
      by blast+
    from df[OF that] have r: "inRange n (- 500) 500 (val (px p) - val (px q))"
      "inRange n (- 500) 500 (val (py p) - val (py q))" by blast+
    from dist_scale[OF r] show ?thesis unfolding p(2) q(2) using p(1) q(1) by simp
  qed
  have m: "a \<in> set eye" "b \<in> set eye" "c \<in> set eye" "d \<in> set eye" "e \<in> set eye"
    "f \<in> set eye"
    by (simp_all add: eye)
  from ds[OF m(2) m(6)] obtain v1 where v1: "getEuclideanDistance (Some b) (Some f) = Inr (Fin v1)"
    "getEuclideanDistance (Some (scale ?k b)) (Some (scale ?k f)) = Inr (Fin (pow2 n * v1))"
    "inRange n (- 500) 501 v1" "0 \<le> v1" by blast
  from ds[OF m(3) m(5)] obtain v2 where v2: "getEuclideanDistance (Some c) (Some e) = Inr (Fin v2)"
    "getEuclideanDistance (Some (scale ?k c)) (Some (scale ?k e)) = Inr (Fin (pow2 n * v2))"
    "inRange n (- 500) 501 v2" "0 \<le> v2" by blast
  from ds[OF m(1) m(4)] obtain h where h: "getEuclideanDistance (Some a) (Some d) = Inr (Fin h)"
    "getEuclideanDistance (Some (scale ?k a)) (Some (scale ?k d)) = Inr (Fin (pow2 n * h))"
    "inRange n (- 500) 501 h" "0 \<le> h" by blast
  have c: "(- 1022 :: int) \<le> - 500" "(501 :: int) < 1023" "(- 1022 :: int) \<le> - 500 + 1"
    "(501 :: int) + 1 < 1024"
    by simp_all
  note V = fadd_scale(1,2)[OF v1(3) v2(3) v1(4) v2(4) c(1,2)]
  have h2: "inRange n (- 500 + 1) (501 + 1) (2 * h)" using h(3) by (rule inRange_double)
  have e2: "2 * (pow2 n * h) = pow2 n * (2 * h)" by simp
  note H = fl_scale[OF h2 c(3,4)]
  have 1: "getEyeAspectRatio eye = Inr (fdiv (Fin (rd (v1 + v2))) (Fin (rd (2 * h))))"
    unfolding eye ear6_dist[OF v1(1) v2(1) h(1)] using V(1) H(1) by simp
  have 2: "getEyeAspectRatio (map (scale ?k) eye)
      = Inr (fdiv (Fin (pow2 n * rd (v1 + v2))) (Fin (pow2 n * rd (2 * h))))"
    unfolding eye list.map ear6_dist[OF v1(2) v2(2) h(2)]
    using V(2) H(2) by (simp only: fmul.simps e2)
  show ?thesis unfolding 1 2 fdiv_scale ..
qed

lemma sqrt16: "sqrt 16 = 4"
  by (rule real_sqrt_unique) simp_all

lemma ear_openEye: "getEyeAspectRatio openEye = Inr (Fin (1/2))"
  unfolding openEye_def ear6 by (simp add: fsub_def fsquare_def sqrt16)

lemma ear_closedEye: "getEyeAspectRatio closedEye = Inr (Fin 0)"
  unfolding closedEye_def ear6 by (simp add: fsub_def fsquare_def sqrt16)

lemma fl_minus: "fl (- x) = fneg (fl x)"
  using rd_nonneg[of x] rd_nonpos[of x]
  by (cases "0 < x"; cases "x < 0") (auto simp add: fl_def rd_minus)

lemma fadd_fneg: "fadd (fneg a) (fneg b) = fneg (fadd a b)"
proof (cases a; cases b)
  fix x y assume "a = Fin x" "b = Fin y"
  then show ?thesis using fl_minus[of "x + y"] by simp
qed simp_all

lemma fsub_fneg: "fsub (fneg a) (fneg b) = fneg (fsub a b)"
  by (simp add: fsub_def fadd_fneg)

lemma fmul_fneg: "fmul (fneg a) b = fneg (fmul a b)"
proof (cases a; cases b)
  fix x y assume "a = Fin x" "b = Fin y"
  then show ?thesis using fl_minus[of "x * y"] by simp
qed auto

lemma fsquare_fneg: "fsquare (fneg a) = fsquare a"
proof (cases a)
  case (Fin x)
  then show ?thesis by (simp add: fsquare_def)
qed (simp_all add: fsquare_def)

lemma scale_fneg:
  "scale (fneg k) p = \<lparr>px = fneg (px (scale k p)), py = fneg (py (scale k p))\<rparr>"
  by (simp add: scale_def fmul_fneg)

lemma dist_fneg:
  "getEuclideanDistance (Some (scale (fneg k) p)) (Some (scale (fneg k) q))
   = getEuclideanDistance (Some (scale k p)) (Some (scale k q))"
  by (simp add: scale_fneg fsub_fneg fsquare_fneg)

lemma ear_scale_fneg:
  "getEyeAspectRatio (map (scale (fneg k)) eye) = getEyeAspectRatio (map (scale k) eye)"
proof (cases "length eye < 6")
  case True
  then show ?thesis by (simp add: ear_short)
next
  case False
  then obtain a b c d e f rest where eye: "eye = a # b # c # d # e # f # rest" by (rule list6)
  obtain v1 v2 h where v:
    "getEuclideanDistance (Some (scale k b)) (Some (scale k f)) = Inr v1"
    "getEuclideanDistance (Some (scale k c)) (Some (scale k e)) = Inr v2"
    "getEuclideanDistance (Some (scale k a)) (Some (scale k d)) = Inr h"
    using dist_Inr by blast
  have "getEyeAspectRatio (map (scale (fneg k)) eye) = Inr (fdiv (fadd v1 v2) (fmul (Fin 2) h))"
    unfolding eye list.map by (rule ear6_dist) (simp_all only: dist_fneg v)
  also have "\<dots> = getEyeAspectRatio (map (scale k) eye)"
    unfolding eye list.map using v by (rule ear6_dist[symmetric])
  finally show ?thesis .
qed

text \<open>
  Claim C9, as amended. For six landmark points \<open>getEyeAspectRatio\<close> returns the value of the
  specification's formula, computed in doubles. It returns the same value after a
  translation of the landmarks that rounds no coordinate, and after a multiplication of
  the landmarks by a power of two or its negative when no coordinate, coordinate
  difference or square leaves the normal range of the doubles; a change of sign of the
  factor never changes the value.
\<close>

theorem ear_invariant:
  "(length eye = 6 \<longrightarrow> getEyeAspectRatio eye = Inr (EAR_spec eye))
   \<and> (list_all (exactlyTranslated dx dy) eye \<longrightarrow>
        getEyeAspectRatio (map (translate (Fin dx) (Fin dy)) eye) = getEyeAspectRatio eye)
   \<and> (scalable n eye \<longrightarrow>
        getEyeAspectRatio (map (scale (Fin (pow2 n))) eye) = getEyeAspectRatio eye
        \<and> getEyeAspectRatio (map (scale (Fin (- pow2 n))) eye) = getEyeAspectRatio eye)
   \<and> getEyeAspectRatio (map (scale (fneg k)) eye) = getEyeAspectRatio (map (scale k) eye)"
proof -
  have "getEyeAspectRatio (map (scale (Fin (- pow2 n))) eye) = getEyeAspectRatio eye"
    if "scalable n eye"
    using ear_scale_fneg[of "Fin (pow2 n)" eye] ear_scale[OF that] by simp
  then show ?thesis using ear_spec6 ear_translate ear_scale ear_scale_fneg by blast
qed

theorem ear_invariant_witness:
  "length openEye = 6 \<and> list_all (exactlyTranslated 5 7) openEye \<and> scalable 3 openEye
   \<and> getEyeAspectRatio openEye = Inr (EAR_spec openEye)
   \<and> getEyeAspectRatio (map (translate (Fin 5) (Fin 7)) openEye) = Inr (Fin (1/2))
   \<and> getEyeAspectRatio (map (scale (Fin (pow2 3))) openEye) = Inr (Fin (1/2))
   \<and> getEyeAspectRatio (map (scale (Fin (- pow2 3))) openEye) = Inr (Fin (1/2))"
proof -
  have 1: "length openEye = 6" by (simp add: openEye_def)
  have 2: "list_all (exactlyTranslated 5 7) openEye"
    by (simp add: openEye_def exactlyTranslated_def translate_def val_def)
  have 3: "scalable 3 openEye"
    by (simp add: openEye_def scalable_def isFinite_def val_def inRange_def pow2_def)
  from ear_invariant[of openEye 5 7 3] 1 2 3 show ?thesis by (simp add: ear_openEye)
qed

text \<open>
  Claim C9, counterexample. The landmarks \<open>(0,0), (1,1), (3,1), (4,1), (3,0), (1,0)\<close> have
  the eye aspect ratio \<open>0.24253562503633297\<close>. Moved by \<open>0.1\<close> along the first axis they
  have \<open>0.24253562503633302\<close>, and multiplied by \<open>3\<close> they have \<open>0.242535625036333\<close>.
\<close>

theorem ear_not_invariant_counterexample:
  "getEyeAspectRatio slantedEye = Inr (Fin (2184566701075399 / 9007199254740992))
   \<and> getEyeAspectRatio
        (map (translate (Fin (3602879701896397 / 36028797018963968)) (Fin 0)) slantedEye)
      = Inr (Fin (4369133402150799 / 18014398509481984))
   \<and> getEyeAspectRatio (map (scale (Fin 3)) slantedEye)
      = Inr (Fin (8738266804301597 / 36028797018963968))
   \<and> getEyeAspectRatio
        (map (translate (Fin (3602879701896397 / 36028797018963968)) (Fin 0)) slantedEye)
      \<noteq> getEyeAspectRatio slantedEye
   \<and> getEyeAspectRatio (map (scale (Fin 3)) slantedEye) \<noteq> getEyeAspectRatio slantedEye"
  unfolding ear_slantedEye ear_slantedEye_translated ear_slantedEye_scaled by simp

section \<open>Fatigue detection\<close>

lemma runEffects_same: "escalationDeps old = escalationDeps new \<Longrightarrow> expiryDeps old = expiryDeps new \<Longrightarrow> runEffects old new = new"
  by (simp add: runEffects_def)

lemma runEffects_frame:
  "requested (runEffects old new) = requested new"
  "eyeClosedFramesRef (runEffects old new) = eyeClosedFramesRef new"
  "noFaceFramesRef (runEffects old new) = noFaceFramesRef new"
  "nextAudioStartTimeRef (runEffects old new) = nextAudioStartTimeRef new"
  "transcriptions (runEffects old new) = transcriptions new"
  "permissionsGranted (runEffects old new) = permissionsGranted new"
  "modelsLoaded (runEffects old new) = modelsLoaded new"
  "unhandled (runEffects old new) = unhandled new"
  "started (runEffects old new) = started new"
  "location (runEffects old new) = location new"
  by (simp_all add: runEffects_def escalationEffect_def expiryEffect_def startLiveSession_def Let_def)

lemma eyesClosedE:
  assumes "eyesClosed l r"
  obtains a b where "getEyeAspectRatio l = Inr a" "getEyeAspectRatio r = Inr b"
    "fless (fdiv (fadd a b) (Fin 2)) EAR_THRESHOLD"
  using assms by (auto simp: eyesClosed_def split: sum.splits)

lemma callback_closed:
  assumes "eyesClosed l r"
  shows "detectionCallback (Face l r) s =
     (if CONSECUTIVE_FRAMES_DROWSY < Suc (eyeClosedFramesRef s)
      then s\<lparr>noFaceFramesRef := 0, eyeClosedFramesRef := Suc (eyeClosedFramesRef s),
             driverState := DROWSY, requested := requested s @ [RequestDrowsy]\<rparr>
      else s\<lparr>noFaceFramesRef := 0, eyeClosedFramesRef := Suc (eyeClosedFramesRef s)\<rparr>)"
  using assms by (elim eyesClosedE) (simp add: detectionCallback_def Let_def)

lemma step_closed_below:
  assumes "monitoring s" "eyesClosed l r" "eyeClosedFramesRef s < 10"
  shows "step reg (DetectionTick (Face l r)) s
         = s\<lparr>noFaceFramesRef := 0, eyeClosedFramesRef := Suc (eyeClosedFramesRef s)\<rparr>"
  using assms
  by (simp add: step_def monitoring_def callback_closed CONSECUTIVE_FRAMES_DROWSY_def
      runEffects_same escalationDeps_def expiryDeps_def)

lemma handle_closed_above:
  assumes "monitoring s" "eyesClosed l r" "10 \<le> eyeClosedFramesRef s"
  shows "handle reg (DetectionTick (Face l r)) s
         = s\<lparr>noFaceFramesRef := 0, eyeClosedFramesRef := Suc (eyeClosedFramesRef s),
             driverState := DROWSY, requested := requested s @ [RequestDrowsy]\<rparr>"
  using assms
  by (simp add: monitoring_def callback_closed CONSECUTIVE_FRAMES_DROWSY_def)

lemma step_becomes_drowsy:
  assumes "monitoring s" "eyesClosed l r" "10 \<le> eyeClosedFramesRef s"
  shows "step reg (DetectionTick (Face l r)) s
     = escalationEffect
         (s\<lparr>noFaceFramesRef := 0, eyeClosedFramesRef := Suc (eyeClosedFramesRef s),
            driverState := DROWSY, requested := requested s @ [RequestDrowsy]\<rparr>)
         (s\<lparr>noFaceFramesRef := 0, eyeClosedFramesRef := Suc (eyeClosedFramesRef s),
            driverState := DROWSY, requested := requested s @ [RequestDrowsy]\<rparr>)"
  using assms
  by (simp add: step_def monitoring_def callback_closed CONSECUTIVE_FRAMES_DROWSY_def
      runEffects_def escalationDeps_def expiryDeps_def)

lemma step_closed_above:
  assumes "monitoring s" "eyesClosed l r" "10 \<le> eyeClosedFramesRef s"
  shows "requested (step reg (DetectionTick (Face l r)) s) = requested s @ [RequestDrowsy]"
    "driverState (step reg (DetectionTick (Face l r)) s)
       = (if miraState s = IDLE then ENGAGED else DROWSY)"
  unfolding step_becomes_drowsy[OF assms]
  by (simp_all add: escalationEffect_def startLiveSession_def)

lemma run_closed_below:
  assumes "monitoring s" "\<forall>e \<in> set eyes. eyesClosed (fst e) (snd e)"
    "eyeClosedFramesRef s + length eyes \<le> 10"
  shows "monitoring (run reg (map (\<lambda>e. DetectionTick (Face (fst e) (snd e))) eyes) s)
       \<and> requested (run reg (map (\<lambda>e. DetectionTick (Face (fst e) (snd e))) eyes) s) = requested s
       \<and> miraState (run reg (map (\<lambda>e. DetectionTick (Face (fst e) (snd e))) eyes) s) = miraState s
       \<and> eyeClosedFramesRef (run reg (map (\<lambda>e. DetectionTick (Face (fst e) (snd e))) eyes) s)
           = eyeClosedFramesRef s + length eyes"
  using assms
proof (induction eyes arbitrary: s)
  case Nil
  then show ?case by simp
next
  case (Cons e eyes)
  let ?s1 = "step reg (DetectionTick (Face (fst e) (snd e))) s"
  from Cons.prems have c: "eyesClosed (fst e) (snd e)" and lt: "eyeClosedFramesRef s < 10"
    by auto
  have s1: "?s1 = s\<lparr>noFaceFramesRef := 0, eyeClosedFramesRef := Suc (eyeClosedFramesRef s)\<rparr>"
    using step_closed_below[OF Cons.prems(1) c lt] .
  have m1: "monitoring ?s1" using Cons.prems(1) by (simp add: s1 monitoring_def)
  have r1: "requested ?s1 = requested s" by (simp add: s1)
  have i1: "miraState ?s1 = miraState s" by (simp add: s1)
  have e1: "eyeClosedFramesRef ?s1 = Suc (eyeClosedFramesRef s)" by (simp add: s1)
  have "\<forall>e \<in> set eyes. eyesClosed (fst e) (snd e)" using Cons.prems(2) by simp
  moreover have "eyeClosedFramesRef ?s1 + length eyes \<le> 10" using Cons.prems(3) e1 by simp
  ultimately show ?case using Cons.IH[OF m1] r1 i1 e1 by simp
qed

lemma step_noface_below:
  assumes "monitoring s" "noFaceFramesRef s < 25"
  shows "step reg (DetectionTick NoFace) s = s\<lparr>noFaceFramesRef := Suc (noFaceFramesRef s)\<rparr>"
  using assms
  by (simp add: step_def monitoring_def detectionCallback_def Let_def
      CONSECUTIVE_FRAMES_UNRESPONSIVE_def runEffects_same escalationDeps_def expiryDeps_def)

lemma handle_noface_above:
  assumes "monitoring s" "25 \<le> noFaceFramesRef s"
  shows "handle reg (DetectionTick NoFace) s
         = s\<lparr>noFaceFramesRef := Suc (noFaceFramesRef s), driverState := UNRESPONSIVE,
             requested := requested s @ [RequestUnresponsive]\<rparr>"
  using assms
  by (simp add: monitoring_def detectionCallback_def Let_def CONSECUTIVE_FRAMES_UNRESPONSIVE_def)

lemma step_noface_above:
  assumes "monitoring s" "25 \<le> noFaceFramesRef s"
  shows "requested (step reg (DetectionTick NoFace) s) = requested s @ [RequestUnresponsive]"
    "driverState (step reg (DetectionTick NoFace) s) = UNRESPONSIVE"
  unfolding step_def handle_noface_above[OF assms]
  by (simp_all add: runEffects_def escalationEffect_def expiryEffect_def expiryDeps_def
      escalationDeps_def Let_def)

lemma run_noface_below:
  assumes "monitoring s" "noFaceFramesRef s + k \<le> 25"
  shows "monitoring (run reg (replicate k (DetectionTick NoFace)) s)
       \<and> requested (run reg (replicate k (DetectionTick NoFace)) s) = requested s
       \<and> noFaceFramesRef (run reg (replicate k (DetectionTick NoFace)) s) = noFaceFramesRef s + k"
  using assms
proof (induction k arbitrary: s)
  case 0
  then show ?case by simp
next
  case (Suc k)
  let ?s1 = "step reg (DetectionTick NoFace) s"
  from Suc.prems have lt: "noFaceFramesRef s < 25" by simp
  have s1: "?s1 = s\<lparr>noFaceFramesRef := Suc (noFaceFramesRef s)\<rparr>"
    using step_noface_below[OF Suc.prems(1) lt] .
  have m1: "monitoring ?s1" using Suc.prems(1) by (simp add: s1 monitoring_def)
  have r1: "requested ?s1 = requested s" by (simp add: s1)
  have n1: "noFaceFramesRef ?s1 = Suc (noFaceFramesRef s)" by (simp add: s1)
  have "noFaceFramesRef ?s1 + k \<le> 25" using Suc.prems(2) n1 by simp
  then show ?case using Suc.IH[OF m1] r1 n1 by simp
qed

lemma run_append: "run reg (xs @ ys) t = run reg ys (run reg xs t)"
  by (induction xs arbitrary: t) simp_all

lemma callback_face_resets: "noFaceFramesRef (detectionCallback (Face l r) t) = 0"
  by (simp add: detectionCallback_def Let_def split: sum.splits)

lemma callback_noface_keeps:
  "eyeClosedFramesRef (detectionCallback NoFace t) = eyeClosedFramesRef t"
  by (simp add: detectionCallback_def Let_def)

lemma ear_long: "\<not> length xs < 6 \<Longrightarrow> \<exists>v. getEyeAspectRatio xs = Inr v"
proof -
  assume "\<not> length xs < 6"
  then obtain a b c d e f rest where "xs = a # b # c # d # e # f # rest" by (rule list6)
  then show ?thesis using ear6_dist[of b f _ c e _ a d _ rest] dist_Inr by metis
qed

lemma step_short:
  assumes "monitoring s" "length l < 6 \<or> length r < 6"
  shows "step reg (DetectionTick (Face l r)) s
         = s\<lparr>noFaceFramesRef := 0, unhandled := unhandled s @ [TypeError]\<rparr>"
proof -
  have "detectionCallback (Face l r) s = s\<lparr>noFaceFramesRef := 0, unhandled := unhandled s @ [TypeError]\<rparr>"
  proof (cases "length l < 6")
    case True
    then show ?thesis by (simp add: detectionCallback_def Let_def ear_short)
  next
    case False
    with assms(2) have "length r < 6" by simp
    moreover from ear_long[OF False] obtain v where "getEyeAspectRatio l = Inr v" by blast
    ultimately show ?thesis by (simp add: detectionCallback_def Let_def ear_short)
  qed
  then show ?thesis using assms(1)
    by (simp add: step_def monitoring_def runEffects_same escalationDeps_def expiryDeps_def)
qed

lemma run_noface_exact:
  assumes "monitoring s" "noFaceFramesRef s + k \<le> 25"
  shows "run reg (replicate k (DetectionTick NoFace)) s
         = s\<lparr>noFaceFramesRef := noFaceFramesRef s + k\<rparr>"
  using assms
proof (induction k arbitrary: s)
  case 0
  then show ?case by simp
next
  case (Suc k)
  let ?s1 = "s\<lparr>noFaceFramesRef := Suc (noFaceFramesRef s)\<rparr>"
  from Suc.prems have lt: "noFaceFramesRef s < 25" by simp
  have s1: "step reg (DetectionTick NoFace) s = ?s1"
    using step_noface_below[OF Suc.prems(1) lt] .
  have m1: "monitoring ?s1" using Suc.prems(1) by (simp add: monitoring_def)
  have "noFaceFramesRef ?s1 + k \<le> 25" using Suc.prems(2) by simp
  from Suc.IH[OF m1 this] show ?case by (simp add: s1)
qed

lemma run_closed_exact:
  assumes "monitoring s" "eyesClosed l r" "eyeClosedFramesRef s + Suc k \<le> 10"
  shows "run reg (replicate (Suc k) (DetectionTick (Face l r))) s
         = s\<lparr>noFaceFramesRef := 0, eyeClosedFramesRef := eyeClosedFramesRef s + Suc k\<rparr>"
  using assms
proof (induction k arbitrary: s)
  case 0
  then show ?case using step_closed_below[of s l r reg] by simp
next
  case (Suc k)
  let ?s1 = "s\<lparr>noFaceFramesRef := 0, eyeClosedFramesRef := Suc (eyeClosedFramesRef s)\<rparr>"
  from Suc.prems have lt: "eyeClosedFramesRef s < 10" by simp
  have s1: "step reg (DetectionTick (Face l r)) s = ?s1"
    using step_closed_below[OF Suc.prems(1,2) lt] .
  have m1: "monitoring ?s1" using Suc.prems(1) by (simp add: monitoring_def)
  have "eyeClosedFramesRef ?s1 + Suc k \<le> 10" using Suc.prems(3) by simp
  from Suc.IH[OF m1 Suc.prems(2) this] show ?case by (simp add: s1)
qed

lemma readyApp_eq:
  "readyApp apiKey = (initialApp apiKey)\<lparr>modelsLoaded := True, permissionsGranted := True\<rparr>"
  by (simp add: readyApp_def step_def runEffects_def escalationDeps_def expiryDeps_def
      escalationEffect_def initialApp_def startLiveSession_def)

lemma readyApp_monitoring: "monitoring (readyApp apiKey)"
  by (simp add: readyApp_eq monitoring_def initialApp_def)

lemma eyesClosed_closedEye: "eyesClosed closedEye closedEye"
  by (simp add: eyesClosed_def ear_closedEye EAR_THRESHOLD_def)

text \<open>
  Claim C3. While the detection loop is running, eleven consecutive samples with a face
  and an averaged ratio below the threshold, starting from \<open>eyeClosedFrames = 0\<close>, make the
  drowsy transition exactly once, at the eleventh sample. After ten or fewer of them the
  driver state is still MONITORING and no transition was requested; the callback of the
  eleventh sample sets the driver state to DROWSY; and when its effects have run the
  driver state is ENGAGED if the conversational state was IDLE, and DROWSY otherwise.
\<close>

theorem drowsy_at_eleventh:
  assumes "monitoring s" and "eyeClosedFramesRef s = 0" and "length eyes = 11"
    and "\<forall>e \<in> set eyes. eyesClosed (fst e) (snd e)"
  shows "requested (run reg (map (\<lambda>e. DetectionTick (Face (fst e) (snd e))) eyes) s)
           = requested s @ [RequestDrowsy]
       \<and> (\<forall>k \<le> 10.
             requested (run reg (map (\<lambda>e. DetectionTick (Face (fst e) (snd e))) (take k eyes)) s)
               = requested s
             \<and> driverState
                 (run reg (map (\<lambda>e. DetectionTick (Face (fst e) (snd e))) (take k eyes)) s)
               = MONITORING)
       \<and> driverState
           (handle reg (DetectionTick (Face (fst (eyes ! 10)) (snd (eyes ! 10))))
              (run reg (map (\<lambda>e. DetectionTick (Face (fst e) (snd e))) (take 10 eyes)) s))
           = DROWSY
       \<and> driverState (run reg (map (\<lambda>e. DetectionTick (Face (fst e) (snd e))) eyes) s)
           = (if miraState s = IDLE then ENGAGED else DROWSY)"
proof -
  let ?tick = "\<lambda>e. DetectionTick (Face (fst e) (snd e))"
  have below: "monitoring (run reg (map ?tick (take k eyes)) s)
       \<and> requested (run reg (map ?tick (take k eyes)) s) = requested s
       \<and> miraState (run reg (map ?tick (take k eyes)) s) = miraState s
       \<and> eyeClosedFramesRef (run reg (map ?tick (take k eyes)) s) = k" if "k \<le> 10" for k
  proof -
    have "\<forall>e \<in> set (take k eyes). eyesClosed (fst e) (snd e)"
      using assms(4) by (meson in_set_takeD)
    moreover have "length (take k eyes) = k" using assms(3) that by simp
    ultimately show ?thesis
      using run_closed_below[OF assms(1), of "take k eyes" reg] assms(2) that by simp
  qed
  have split: "eyes = take 10 eyes @ [eyes ! 10]"
    using assms(3) take_Suc_conv_app_nth[of 10 eyes] by simp
  let ?s10 = "run reg (map ?tick (take 10 eyes)) s"
  have last_closed: "eyesClosed (fst (eyes ! 10)) (snd (eyes ! 10))"
    using assms(3,4) by simp
  have m10: "monitoring ?s10" and c10: "10 \<le> eyeClosedFramesRef ?s10"
    using below[of 10] by simp_all
  have run11: "run reg (map ?tick eyes) s = step reg (?tick (eyes ! 10)) ?s10"
    by (subst split) (simp add: run_append)
  have 1: "requested (run reg (map ?tick eyes) s) = requested s @ [RequestDrowsy]"
    unfolding run11 using step_closed_above(1)[OF m10 last_closed c10] below[of 10] by simp
  have 2: "requested (run reg (map ?tick (take k eyes)) s) = requested s
       \<and> driverState (run reg (map ?tick (take k eyes)) s) = MONITORING" if "k \<le> 10" for k
    using below[OF that] by (simp add: monitoring_def)
  have 3: "driverState (handle reg (?tick (eyes ! 10)) ?s10) = DROWSY"
    unfolding handle_closed_above[OF m10 last_closed c10] by simp
  have 4: "driverState (run reg (map ?tick eyes) s)
           = (if miraState s = IDLE then ENGAGED else DROWSY)"
    unfolding run11 using step_closed_above(2)[OF m10 last_closed c10] below[of 10] by simp
  from 1 2 3 4 show ?thesis by blast
qed

theorem drowsy_at_eleventh_witness:
  "monitoring (readyApp True)
   \<and> eyeClosedFramesRef (readyApp True) = 0
   \<and> length (replicate 11 (closedEye, closedEye)) = 11
   \<and> eyesClosed closedEye closedEye
   \<and> requested (run (mockFunctions noMaps)
        (map (\<lambda>e. DetectionTick (Face (fst e) (snd e))) (replicate 11 (closedEye, closedEye)))
        (readyApp True)) = [RequestDrowsy]
   \<and> driverState (run (mockFunctions noMaps)
        (map (\<lambda>e. DetectionTick (Face (fst e) (snd e))) (replicate 11 (closedEye, closedEye)))
        (readyApp True)) = ENGAGED"
proof -
  have h1: "monitoring (readyApp True)" by (rule readyApp_monitoring)
  have h2: "eyeClosedFramesRef (readyApp True) = 0" by (simp add: readyApp_eq initialApp_def)
  have h3: "length (replicate 11 (closedEye, closedEye)) = 11" by simp
  have h4: "\<forall>e \<in> set (replicate 11 (closedEye, closedEye)). eyesClosed (fst e) (snd e)"
    by (simp add: eyesClosed_closedEye)
  have "requested (readyApp True) = []" "miraState (readyApp True) = IDLE"
    by (simp_all add: readyApp_eq initialApp_def)
  with drowsy_at_eleventh [OF h1 h2 h3 h4, of "mockFunctions noMaps"] h1 h2 h3
    eyesClosed_closedEye
  show ?thesis by simp
qed

text \<open>
  Claim C4. While the detection loop is running, twenty-six consecutive samples without a
  face, starting from \<open>noFaceFrames = 0\<close>, make the unresponsive transition at the
  twenty-sixth sample and not before: after twenty-five or fewer of them the driver state
  is still MONITORING and no transition was requested, after the twenty-sixth the driver
  state is UNRESPONSIVE. A sample with a face sets \<open>noFaceFrames\<close> to 0, and a sample without
  a face leaves \<open>eyeClosedFrames\<close> as it is.
\<close>

theorem unresponsive_at_26th:
  assumes "monitoring s" and "noFaceFramesRef s = 0"
  shows "requested (run reg (replicate 26 (DetectionTick NoFace)) s)
           = requested s @ [RequestUnresponsive]
       \<and> driverState (run reg (replicate 26 (DetectionTick NoFace)) s) = UNRESPONSIVE
       \<and> (\<forall>k \<le> 25. requested (run reg (replicate k (DetectionTick NoFace)) s) = requested s
             \<and> driverState (run reg (replicate k (DetectionTick NoFace)) s) = MONITORING)
       \<and> (monitoring t \<longrightarrow> noFaceFramesRef (step reg (DetectionTick (Face l r)) t) = 0)
       \<and> eyeClosedFramesRef (step reg (DetectionTick NoFace) t) = eyeClosedFramesRef t"
proof -
  have below: "monitoring (run reg (replicate k (DetectionTick NoFace)) s)
       \<and> requested (run reg (replicate k (DetectionTick NoFace)) s) = requested s
       \<and> noFaceFramesRef (run reg (replicate k (DetectionTick NoFace)) s) = k" if "k \<le> 25" for k
    using run_noface_below[OF assms(1), of k reg] assms(2) that by simp
  let ?s25 = "run reg (replicate 25 (DetectionTick NoFace)) s"
  have m25: "monitoring ?s25" and c25: "25 \<le> noFaceFramesRef ?s25"
    using below[of 25] by simp_all
  have "replicate 26 (DetectionTick NoFace) = replicate 25 (DetectionTick NoFace) @ [DetectionTick NoFace]"
    using replicate_add[of 25 1 "DetectionTick NoFace"] by simp
  then have run26: "run reg (replicate 26 (DetectionTick NoFace)) s = step reg (DetectionTick NoFace) ?s25"
    by (simp only: run_append run.simps)
  have 1: "requested (run reg (replicate 26 (DetectionTick NoFace)) s)
           = requested s @ [RequestUnresponsive]"
    unfolding run26 using step_noface_above(1)[OF m25 c25] below[of 25] by simp
  have 2: "driverState (run reg (replicate 26 (DetectionTick NoFace)) s) = UNRESPONSIVE"
    unfolding run26 using step_noface_above(2)[OF m25 c25] .
  have 3: "noFaceFramesRef (step reg (DetectionTick (Face l r)) t) = 0" if "monitoring t"
    using that by (simp add: step_def monitoring_def runEffects_frame callback_face_resets)
  have 4: "eyeClosedFramesRef (step reg (DetectionTick NoFace) t) = eyeClosedFramesRef t"
    by (simp add: step_def runEffects_frame callback_noface_keeps)
  have 5: "requested (run reg (replicate k (DetectionTick NoFace)) s) = requested s
       \<and> driverState (run reg (replicate k (DetectionTick NoFace)) s) = MONITORING"
    if "k \<le> 25" for k
    using below[OF that] by (simp add: monitoring_def)
  from 1 2 3 4 5 show ?thesis by blast
qed

theorem unresponsive_at_26th_witness:
  "monitoring (readyApp True)
   \<and> noFaceFramesRef (readyApp True) = 0
   \<and> requested (run (mockFunctions noMaps) (replicate 26 (DetectionTick NoFace)) (readyApp True))
       = [RequestUnresponsive]
   \<and> driverState (run (mockFunctions noMaps) (replicate 26 (DetectionTick NoFace))
        (readyApp True)) = UNRESPONSIVE
   \<and> noFaceFramesRef (step (mockFunctions noMaps) (DetectionTick (Face openEye openEye))
        (readyApp True)) = 0"
proof -
  have h1: "monitoring (readyApp True)" by (rule readyApp_monitoring)
  have h2: "noFaceFramesRef (readyApp True) = 0" by (simp add: readyApp_eq initialApp_def)
  have "requested (readyApp True) = []" by (simp add: readyApp_eq initialApp_def)
  with unresponsive_at_26th [OF h1 h2, of "mockFunctions noMaps" "readyApp True" openEye openEye]
    h1 h2
  show ?thesis by simp
qed

text \<open>
  Claim C7, as the code has it. \<open>getEyeAspectRatio\<close> has no length check. With fewer than six
  points it throws a TypeError and returns no number; with more than six points it returns
  the ratio of the first six. In the detection loop a throw ends that run of the callback
  only: the face-lost counter has been reset, the error is recorded, nothing else changes
  and the loop is still running.
\<close>

theorem ear_without_six_points:
  "(length xs < 6 \<longrightarrow> getEyeAspectRatio xs = Inl TypeError)
   \<and> (6 < length ys \<longrightarrow>
        getEyeAspectRatio ys = getEyeAspectRatio (take 6 ys)
        \<and> (\<exists>v. getEyeAspectRatio ys = Inr v))
   \<and> (monitoring s \<and> (length l < 6 \<or> length r < 6) \<longrightarrow>
        step reg (DetectionTick (Face l r)) s
          = s\<lparr>noFaceFramesRef := 0, unhandled := unhandled s @ [TypeError]\<rparr>
        \<and> monitoring (step reg (DetectionTick (Face l r)) s))"
proof -
  have 1: "getEyeAspectRatio xs = Inl TypeError" if "length xs < 6"
    using that by (rule ear_short)
  have 2: "getEyeAspectRatio ys = getEyeAspectRatio (take 6 ys)
        \<and> (\<exists>v. getEyeAspectRatio ys = Inr v)" if "6 < length ys"
  proof -
    from that have n: "\<not> length ys < 6" by simp
    then obtain a b c d e f rest where ys: "ys = a # b # c # d # e # f # rest" by (rule list6)
    obtain v1 v2 h where v: "getEuclideanDistance (Some b) (Some f) = Inr v1"
      "getEuclideanDistance (Some c) (Some e) = Inr v2"
      "getEuclideanDistance (Some a) (Some d) = Inr h"
      using dist_Inr by blast
    have "take 6 ys = a # b # c # d # e # f # []" by (simp add: ys eval_nat_numeral)
    then have "getEyeAspectRatio (take 6 ys) = getEyeAspectRatio ys"
      unfolding ys using ear6_dist[OF v] by simp
    then show ?thesis using ear_long[OF n] by simp
  qed
  have 3: "step reg (DetectionTick (Face l r)) s
          = s\<lparr>noFaceFramesRef := 0, unhandled := unhandled s @ [TypeError]\<rparr>
        \<and> monitoring (step reg (DetectionTick (Face l r)) s)"
    if "monitoring s \<and> (length l < 6 \<or> length r < 6)"
  proof -
    from that have eq: "step reg (DetectionTick (Face l r)) s
          = s\<lparr>noFaceFramesRef := 0, unhandled := unhandled s @ [TypeError]\<rparr>"
      by (intro step_short) simp_all
    moreover from that have "monitoring (s\<lparr>noFaceFramesRef := 0, unhandled := unhandled s @ [TypeError]\<rparr>)"
      by (simp add: monitoring_def)
    ultimately show ?thesis by simp
  qed
  from 1 2 3 show ?thesis by blast
qed

theorem ear_without_six_points_witness:
  "length ([] :: Point list) < 6
   \<and> getEyeAspectRatio [] = Inl TypeError
   \<and> 6 < length (openEye @ [\<lparr>px = Fin 9, py = Fin 9\<rparr>])
   \<and> getEyeAspectRatio (openEye @ [\<lparr>px = Fin 9, py = Fin 9\<rparr>])
       = getEyeAspectRatio (take 6 (openEye @ [\<lparr>px = Fin 9, py = Fin 9\<rparr>]))
   \<and> monitoring (readyApp True)
   \<and> length ([] :: Point list) < 6
   \<and> step (mockFunctions noMaps) (DetectionTick (Face [] openEye)) (readyApp True)
       = (readyApp True)\<lparr>noFaceFramesRef := 0,
                          unhandled := unhandled (readyApp True) @ [TypeError]\<rparr>"
proof -
  have h2: "6 < length (openEye @ [\<lparr>px = Fin 9, py = Fin 9\<rparr>])" by (simp add: openEye_def)
  have h3: "monitoring (readyApp True)" by (rule readyApp_monitoring)
  from ear_without_six_points [of "[]" "openEye @ [\<lparr>px = Fin 9, py = Fin 9\<rparr>]" "readyApp True"
      "[]" openEye "mockFunctions noMaps"] h2 h3
  show ?thesis by simp
qed

theorem ear_seven_points_counterexample:
  "length (openEye @ [\<lparr>px = Fin 9, py = Fin 9\<rparr>]) \<noteq> 6
   \<and> getEyeAspectRatio (openEye @ [\<lparr>px = Fin 9, py = Fin 9\<rparr>]) = Inr (Fin (1/2))"
proof -
  have "getEyeAspectRatio (openEye @ [\<lparr>px = Fin 9, py = Fin 9\<rparr>]) = getEyeAspectRatio openEye"
    by (simp add: openEye_def getEyeAspectRatio_def at_index_def eval_nat_numeral)
  then show ?thesis by (simp add: ear_openEye) (simp add: openEye_def)
qed


section \<open>Escalation and emergency countdown\<close>

text \<open>
  One pass of the effects is enough: a second pass, run on the state that the first pass
  left, changes nothing. So \<open>step\<close> ends in a state in which React has nothing left to run.
\<close>

lemmas effect_defs = runEffects_def escalationDeps_def expiryDeps_def escalationEffect_def
  expiryEffect_def startLiveSession_def Let_def

lemma settle_expiry: "runEffects new (expiryEffect new new) = expiryEffect new new"
  by (cases "emergencyCountdown new \<le> 0") (simp_all add: effect_defs)

lemma settle_escalation: "runEffects new (escalationEffect new new) = escalationEffect new new"
  by (cases "driverState new"; cases "miraState new = IDLE"; cases "isEmergency new";
      cases "permissionsGranted new \<and> aiRef new")
     (simp_all add: effect_defs)

lemma settle_both:
  "runEffects new (expiryEffect new (escalationEffect new new))
     = expiryEffect new (escalationEffect new new)"
  by (cases "driverState new"; cases "miraState new = IDLE"; cases "isEmergency new";
      cases "permissionsGranted new \<and> aiRef new"; cases "emergencyCountdown new \<le> 0")
     (simp_all add: effect_defs)

lemma effects_settle: "runEffects new (runEffects old new) = runEffects old new"
proof -
  have "runEffects old new = new \<or> runEffects old new = expiryEffect new new
      \<or> runEffects old new = escalationEffect new new
      \<or> runEffects old new = expiryEffect new (escalationEffect new new)"
    by (simp add: runEffects_def Let_def)
  moreover have "runEffects new new = new" by (simp add: runEffects_def)
  ultimately show ?thesis using settle_expiry settle_escalation settle_both by metis
qed

lemma step_becomes_unresponsive:
  assumes "monitoring s" "\<not> isEmergency s" "25 \<le> noFaceFramesRef s"
  shows "step reg (DetectionTick NoFace) s
     = s\<lparr>noFaceFramesRef := Suc (noFaceFramesRef s), driverState := UNRESPONSIVE,
          requested := requested s @ [RequestUnresponsive],
          isEmergency := True, emergencyCountdown := 15, emergencyTimerRef := True,
          sent := (if sessionPromiseRef s then sent s @ [SendText unresponsiveText] else sent s)\<rparr>"
  using assms
  by (simp add: step_def monitoring_def detectionCallback_def Let_def
      CONSECUTIVE_FRAMES_UNRESPONSIVE_def runEffects_def escalationDeps_def expiryDeps_def
      escalationEffect_def)

lemma step_tick_counting:
  assumes "counting s" "1 < emergencyCountdown s"
  shows "step reg EmergencyTick s = s\<lparr>emergencyCountdown := emergencyCountdown s - 1\<rparr>"
  using assms
  by (simp add: step_def counting_def emergencyInterval_def runEffects_def escalationDeps_def
      expiryDeps_def expiryEffect_def)

lemma step_tick_expires:
  assumes "counting s" "emergencyCountdown s \<le> 1"
  shows "step reg EmergencyTick s
     = s\<lparr>emergencyCountdown := emergencyCountdown s - 1, emergencyTimerRef := False,
          alerts := alerts s @ [location s], isEmergency := False, driverState := MONITORING\<rparr>"
  using assms
  by (simp add: step_def counting_def emergencyInterval_def runEffects_def escalationDeps_def
      expiryDeps_def expiryEffect_def)

lemma step_tick_stopped:
  assumes "\<not> emergencyTimerRef s"
  shows "step reg EmergencyTick s = s"
  using assms by (simp add: step_def runEffects_def)

lemma run_ticks_stopped:
  assumes "\<not> emergencyTimerRef s"
  shows "run reg (replicate n EmergencyTick) s = s"
  using assms by (induction n) (simp_all add: step_tick_stopped)

lemma step_cancel:
  assumes "counting s"
  shows "step reg CancelClick s
     = s\<lparr>emergencyTimerRef := False, isEmergency := False, driverState := MONITORING,
          transcriptions := transcriptions s @ [\<lparr>speaker = USER, text_of = ''I'm okay.''\<rparr>]\<rparr>"
  using assms
  by (simp add: step_def counting_def cancelEmergency_def runEffects_def escalationDeps_def
      expiryDeps_def escalationEffect_def)

lemma run_ticks_counting:
  assumes "counting s" "int k < emergencyCountdown s"
  shows "run reg (replicate k EmergencyTick) s
         = s\<lparr>emergencyCountdown := emergencyCountdown s - int k\<rparr>"
  using assms
proof (induction k arbitrary: s)
  case 0
  then show ?case by simp
next
  case (Suc k)
  let ?s1 = "s\<lparr>emergencyCountdown := emergencyCountdown s - 1\<rparr>"
  from Suc.prems have "1 < emergencyCountdown s" by simp
  then have s1: "step reg EmergencyTick s = ?s1" using step_tick_counting[OF Suc.prems(1)] by simp
  have c1: "counting ?s1" using Suc.prems(1) by (simp add: counting_def)
  have "int k < emergencyCountdown ?s1" using Suc.prems(2) by simp
  from Suc.IH[OF c1 this] show ?case by (simp add: s1 algebra_simps)
qed

lemma run_ticks_expire:
  assumes "counting s" "emergencyCountdown s = int (Suc k)"
  shows "run reg (replicate (Suc k + n) EmergencyTick) s
     = s\<lparr>emergencyCountdown := 0, emergencyTimerRef := False,
          alerts := alerts s @ [location s], isEmergency := False, driverState := MONITORING\<rparr>"
proof -
  let ?sk = "s\<lparr>emergencyCountdown := emergencyCountdown s - int k\<rparr>"
  have rk: "run reg (replicate k EmergencyTick) s = ?sk"
    using run_ticks_counting[OF assms(1), of k reg] assms(2) by simp
  have ck: "counting ?sk" using assms(1) by (simp add: counting_def)
  have "emergencyCountdown ?sk \<le> 1" using assms(2) by simp
  from step_tick_expires[OF ck this, of reg] assms(2)
  have last: "step reg EmergencyTick ?sk
     = s\<lparr>emergencyCountdown := 0, emergencyTimerRef := False,
          alerts := alerts s @ [location s], isEmergency := False, driverState := MONITORING\<rparr>"
    by simp
  have "replicate (Suc k + n) EmergencyTick
      = replicate k EmergencyTick @ [EmergencyTick] @ replicate n EmergencyTick"
    by (simp add: replicate_add replicate_app_Cons_same)
  then have "run reg (replicate (Suc k + n) EmergencyTick) s
      = run reg (replicate n EmergencyTick) (step reg EmergencyTick ?sk)"
    by (simp only: run_append rk run.simps)
  then show ?thesis by (simp add: last run_ticks_stopped)
qed


lemma faceLostApp_eq: "faceLostApp = (readyApp True)\<lparr>noFaceFramesRef := 25\<rparr>"
proof -
  have "noFaceFramesRef (readyApp True) = 0" by (simp add: readyApp_eq initialApp_def)
  then show ?thesis
    unfolding faceLostApp_def
    using run_noface_exact[OF readyApp_monitoring, of True 25 "mockFunctions noMaps"] by simp
qed

lemma almostDrowsyApp_eq:
  "almostDrowsyApp apiKey = (readyApp apiKey)\<lparr>noFaceFramesRef := 0, eyeClosedFramesRef := 10\<rparr>"
proof -
  have "eyeClosedFramesRef (readyApp apiKey) = 0" by (simp add: readyApp_eq initialApp_def)
  then show ?thesis
    unfolding almostDrowsyApp_def
    using run_closed_exact[OF readyApp_monitoring eyesClosed_closedEye, of apiKey 9
        "mockFunctions noMaps"]
    by (simp add: eval_nat_numeral)
qed


text \<open>
  One countdown, with tick and cancel events only. When a sample without a face raises the
  driver state to UNRESPONSIVE and no countdown is active, the countdown starts at 15 and
  each one-second tick lowers it by one; before the fifteenth tick nothing is alerted.
  After fifteen ticks (and however many tick events are fed after them) one alert has been
  raised, the countdown is cleared and the driver state is MONITORING. A cancellation
  after fewer than fifteen ticks raises no alert, then or on any later tick, sets the
  driver state to MONITORING at once and appends the entry "I'm okay." of the user to the
  transcript.
\<close>

lemma countdown_cycle:
  assumes "monitoring s" and "\<not> isEmergency s" and "25 \<le> noFaceFramesRef s"
  shows "(\<forall>k<15.
            emergencyCountdown (run reg (DetectionTick NoFace # replicate k EmergencyTick) s)
              = 15 - int k
          \<and> driverState (run reg (DetectionTick NoFace # replicate k EmergencyTick) s)
              = UNRESPONSIVE
          \<and> isEmergency (run reg (DetectionTick NoFace # replicate k EmergencyTick) s)
          \<and> alerts (run reg (DetectionTick NoFace # replicate k EmergencyTick) s) = alerts s)
       \<and> (\<forall>n.
            alerts (run reg (DetectionTick NoFace # replicate (15 + n) EmergencyTick) s)
              = alerts s @ [location s]
          \<and> driverState (run reg (DetectionTick NoFace # replicate (15 + n) EmergencyTick) s)
              = MONITORING
          \<and> \<not> isEmergency (run reg (DetectionTick NoFace # replicate (15 + n) EmergencyTick) s)
          \<and> \<not> emergencyTimerRef
                (run reg (DetectionTick NoFace # replicate (15 + n) EmergencyTick) s))
       \<and> (\<forall>k<15. \<forall>n.
            alerts (run reg (DetectionTick NoFace # replicate k EmergencyTick
                      @ CancelClick # replicate n EmergencyTick) s) = alerts s
          \<and> driverState (run reg (DetectionTick NoFace # replicate k EmergencyTick
                      @ CancelClick # replicate n EmergencyTick) s) = MONITORING
          \<and> \<not> isEmergency (run reg (DetectionTick NoFace # replicate k EmergencyTick
                      @ CancelClick # replicate n EmergencyTick) s)
          \<and> transcriptions (run reg (DetectionTick NoFace # replicate k EmergencyTick
                      @ CancelClick # replicate n EmergencyTick) s)
              = transcriptions s @ [\<lparr>speaker = USER, text_of = ''I'm okay.''\<rparr>])"
proof -
  define s0 where "s0 = step reg (DetectionTick NoFace) s"
  have s0: "s0 = s\<lparr>noFaceFramesRef := Suc (noFaceFramesRef s), driverState := UNRESPONSIVE,
          requested := requested s @ [RequestUnresponsive],
          isEmergency := True, emergencyCountdown := 15, emergencyTimerRef := True,
          sent := (if sessionPromiseRef s then sent s @ [SendText unresponsiveText] else sent s)\<rparr>"
    unfolding s0_def using step_becomes_unresponsive[OF assms] .
  have c0: "counting s0" by (simp add: s0 counting_def)
  have cd0: "emergencyCountdown s0 = 15" by (simp add: s0)
  have run0: "run reg (DetectionTick NoFace # es) s = run reg es s0" for es
    by (simp add: s0_def)
  have ticks: "run reg (replicate k EmergencyTick) s0 = s0\<lparr>emergencyCountdown := 15 - int k\<rparr>"
    if "k < 15" for k
    using run_ticks_counting[OF c0, of k reg] that cd0 by simp
  have 1: "emergencyCountdown (run reg (DetectionTick NoFace # replicate k EmergencyTick) s)
              = 15 - int k
          \<and> driverState (run reg (DetectionTick NoFace # replicate k EmergencyTick) s)
              = UNRESPONSIVE
          \<and> isEmergency (run reg (DetectionTick NoFace # replicate k EmergencyTick) s)
          \<and> alerts (run reg (DetectionTick NoFace # replicate k EmergencyTick) s) = alerts s"
    if "k < 15" for k
    unfolding run0 ticks[OF that] by (simp add: s0)
  have expire: "run reg (replicate (15 + n) EmergencyTick) s0
     = s0\<lparr>emergencyCountdown := 0, emergencyTimerRef := False,
          alerts := alerts s0 @ [location s0], isEmergency := False, driverState := MONITORING\<rparr>"
    for n
    using run_ticks_expire[OF c0, of 14 reg n] cd0 by simp
  have 2: "alerts (run reg (DetectionTick NoFace # replicate (15 + n) EmergencyTick) s)
              = alerts s @ [location s]
          \<and> driverState (run reg (DetectionTick NoFace # replicate (15 + n) EmergencyTick) s)
              = MONITORING
          \<and> \<not> isEmergency (run reg (DetectionTick NoFace # replicate (15 + n) EmergencyTick) s)
          \<and> \<not> emergencyTimerRef
                (run reg (DetectionTick NoFace # replicate (15 + n) EmergencyTick) s)" for n
    unfolding run0 expire by (simp add: s0)
  have cancel: "run reg (replicate k EmergencyTick @ CancelClick # replicate n EmergencyTick) s0
     = s0\<lparr>emergencyCountdown := 15 - int k, emergencyTimerRef := False, isEmergency := False,
          driverState := MONITORING,
          transcriptions := transcriptions s0 @ [\<lparr>speaker = USER, text_of = ''I'm okay.''\<rparr>]\<rparr>"
    if "k < 15" for k n
  proof -
    let ?sk = "s0\<lparr>emergencyCountdown := 15 - int k\<rparr>"
    have ck: "counting ?sk" using c0 by (simp add: counting_def)
    have "run reg (replicate k EmergencyTick @ CancelClick # replicate n EmergencyTick) s0
        = run reg (replicate n EmergencyTick) (step reg CancelClick ?sk)"
      by (simp only: run_append ticks[OF that] run.simps)
    also have "\<dots> = step reg CancelClick ?sk"
      by (rule run_ticks_stopped) (simp add: step_cancel[OF ck])
    finally show ?thesis by (simp add: step_cancel[OF ck])
  qed
  have run0': "run reg (DetectionTick NoFace # es @ fs) s = run reg (es @ fs) s0" for es fs
    by (simp add: s0_def)
  have 3: "alerts (run reg (DetectionTick NoFace # replicate k EmergencyTick
                      @ CancelClick # replicate n EmergencyTick) s) = alerts s
          \<and> driverState (run reg (DetectionTick NoFace # replicate k EmergencyTick
                      @ CancelClick # replicate n EmergencyTick) s) = MONITORING
          \<and> \<not> isEmergency (run reg (DetectionTick NoFace # replicate k EmergencyTick
                      @ CancelClick # replicate n EmergencyTick) s)
          \<and> transcriptions (run reg (DetectionTick NoFace # replicate k EmergencyTick
                      @ CancelClick # replicate n EmergencyTick) s)
              = transcriptions s @ [\<lparr>speaker = USER, text_of = ''I'm okay.''\<rparr>]"
    if "k < 15" for k n
    unfolding run0' cancel[OF that] by (simp add: s0)
  from 1 2 3 show ?thesis by blast
qed



lemma faceLostApp_facts:
  "monitoring faceLostApp" "\<not> isEmergency faceLostApp" "25 \<le> noFaceFramesRef faceLostApp"
  "alerts faceLostApp = []" "location faceLostApp = None" "permissionsGranted faceLostApp"
  using readyApp_monitoring[of True]
  by (simp_all add: faceLostApp_eq monitoring_def readyApp_eq initialApp_def)

lemma expired_state:
  "run (mockFunctions noMaps) (DetectionTick NoFace # replicate 15 EmergencyTick) faceLostApp
     = faceLostApp\<lparr>noFaceFramesRef := 26, driverState := MONITORING,
         requested := [RequestUnresponsive], isEmergency := False, emergencyCountdown := 0,
         emergencyTimerRef := False, alerts := [None]\<rparr>"
proof -
  let ?s0 = "faceLostApp\<lparr>noFaceFramesRef := Suc (noFaceFramesRef faceLostApp),
          driverState := UNRESPONSIVE,
          requested := requested faceLostApp @ [RequestUnresponsive],
          isEmergency := True, emergencyCountdown := 15, emergencyTimerRef := True,
          sent := (if sessionPromiseRef faceLostApp
                   then sent faceLostApp @ [SendText unresponsiveText] else sent faceLostApp)\<rparr>"
  have s0: "step (mockFunctions noMaps) (DetectionTick NoFace) faceLostApp = ?s0"
    using step_becomes_unresponsive[OF faceLostApp_facts(1-3)] .
  have c0: "counting ?s0" by (simp add: counting_def)
  have "run (mockFunctions noMaps) (replicate (Suc 14 + 0) EmergencyTick) ?s0
     = ?s0\<lparr>emergencyCountdown := 0, emergencyTimerRef := False,
          alerts := alerts ?s0 @ [location ?s0], isEmergency := False,
          driverState := MONITORING\<rparr>"
    by (rule run_ticks_expire[OF c0]) simp
  then show ?thesis
    by (simp add: s0) (simp add: faceLostApp_eq readyApp_eq initialApp_def)
qed

text \<open>
  Claim C1. The claim asks for exactly one alert per expired countdown. The countdown's
  fifteen ticks do raise one alert, but the expiry effect also depends on \<open>location\<close>, and
  \<open>emergencyCountdown\<close> stays at 0 after the expiry: the next location update, with no
  countdown running, runs the effect again and raises a second alert, and every further
  location update another one.
\<close>

theorem emergency_alert_repeats:
  "alerts (run (mockFunctions noMaps)
      (DetectionTick NoFace # replicate 15 EmergencyTick) faceLostApp) = [None]
   \<and> alerts (run (mockFunctions noMaps)
      (DetectionTick NoFace # replicate 15 EmergencyTick
         @ [LocationUpdate \<lparr>latitude = 12, longitude = 77\<rparr>]) faceLostApp)
     = [None, Some \<lparr>latitude = 12, longitude = 77\<rparr>]
   \<and> alerts (run (mockFunctions noMaps)
      (DetectionTick NoFace # replicate 15 EmergencyTick
         @ [LocationUpdate \<lparr>latitude = 12, longitude = 77\<rparr>,
            LocationUpdate \<lparr>latitude = 13, longitude = 77\<rparr>]) faceLostApp)
     = [None, Some \<lparr>latitude = 12, longitude = 77\<rparr>, Some \<lparr>latitude = 13, longitude = 77\<rparr>]"
proof -
  have split: "run reg (e # es @ fs) s = run reg fs (run reg (e # es) s)" for reg e es fs s
    using run_append[of reg "e # es" fs s] by simp
  show ?thesis
    unfolding split expired_state
    by (simp add: step_def runEffects_def escalationDeps_def expiryDeps_def expiryEffect_def
        escalationEffect_def faceLostApp_eq readyApp_eq initialApp_def)
qed


text \<open>
  Claim C6, as the code has it. When a closed-eye sample raises the driver state to DROWSY,
  the escalation effect moves it on to ENGAGED and calls \<open>startLiveSession\<close> only if the
  conversational state is IDLE; otherwise the driver state stays DROWSY and nothing is
  started. \<open>startLiveSession\<close> in turn starts a session only if permissions are granted
  and the AI client exists; without them the driver state is ENGAGED with no session.
\<close>

theorem drowsy_escalation:
  assumes "monitoring s" and "eyesClosed l r" and "10 \<le> eyeClosedFramesRef s"
    and "driverState t = DROWSY"
  shows "requested (step reg (DetectionTick (Face l r)) s) = requested s @ [RequestDrowsy]
       \<and> driverState (step reg (DetectionTick (Face l r)) s)
           = (if miraState s = IDLE then ENGAGED else DROWSY)
       \<and> liveSessions (step reg (DetectionTick (Face l r)) s)
           = (if miraState s = IDLE \<and> aiRef s then Suc (liveSessions s) else liveSessions s)
       \<and> miraState (step reg (DetectionTick (Face l r)) s)
           = (if miraState s = IDLE \<and> aiRef s then LISTENING else miraState s)
       \<and> driverState (escalationEffect t t) = (if miraState t = IDLE then ENGAGED else DROWSY)
       \<and> liveSessions (escalationEffect t t)
           = (if miraState t = IDLE \<and> permissionsGranted t \<and> aiRef t
              then Suc (liveSessions t) else liveSessions t)"
proof -
  from assms(1) have pg: "permissionsGranted s" by (simp add: monitoring_def)
  have a: "requested (step reg (DetectionTick (Face l r)) s) = requested s @ [RequestDrowsy]"
    unfolding step_becomes_drowsy[OF assms(1-3)]
    by (simp add: escalationEffect_def startLiveSession_def)
  have b: "driverState (step reg (DetectionTick (Face l r)) s)
           = (if miraState s = IDLE then ENGAGED else DROWSY)"
    unfolding step_becomes_drowsy[OF assms(1-3)]
    by (simp add: escalationEffect_def startLiveSession_def)
  have c: "liveSessions (step reg (DetectionTick (Face l r)) s)
           = (if miraState s = IDLE \<and> aiRef s then Suc (liveSessions s) else liveSessions s)"
    unfolding step_becomes_drowsy[OF assms(1-3)] using pg
    by (simp add: escalationEffect_def startLiveSession_def)
  have d: "miraState (step reg (DetectionTick (Face l r)) s)
           = (if miraState s = IDLE \<and> aiRef s then LISTENING else miraState s)"
    unfolding step_becomes_drowsy[OF assms(1-3)] using pg
    by (simp add: escalationEffect_def startLiveSession_def)
  have e: "driverState (escalationEffect t t) = (if miraState t = IDLE then ENGAGED else DROWSY)"
    using assms(4) by (simp add: escalationEffect_def startLiveSession_def)
  have f: "liveSessions (escalationEffect t t)
           = (if miraState t = IDLE \<and> permissionsGranted t \<and> aiRef t
              then Suc (liveSessions t) else liveSessions t)"
    using assms(4) by (simp add: escalationEffect_def startLiveSession_def)
  from a b c d e f show ?thesis by blast
qed


theorem drowsy_escalation_witness:
  "monitoring (almostDrowsyApp True) \<and> eyesClosed closedEye closedEye
   \<and> 10 \<le> eyeClosedFramesRef (almostDrowsyApp True)
   \<and> driverState ((readyApp True)\<lparr>driverState := DROWSY, miraState := LISTENING\<rparr>) = DROWSY
   \<and> driverState (step (mockFunctions noMaps) (DetectionTick (Face closedEye closedEye))
         (almostDrowsyApp True)) = ENGAGED
   \<and> liveSessions (step (mockFunctions noMaps) (DetectionTick (Face closedEye closedEye))
         (almostDrowsyApp True)) = 1
   \<and> driverState (escalationEffect
         ((readyApp True)\<lparr>driverState := DROWSY, miraState := LISTENING\<rparr>)
         ((readyApp True)\<lparr>driverState := DROWSY, miraState := LISTENING\<rparr>)) = DROWSY"
proof -
  have h1: "monitoring (almostDrowsyApp True)"
    using readyApp_monitoring[of True] by (simp add: almostDrowsyApp_eq monitoring_def)
  have h3: "10 \<le> eyeClosedFramesRef (almostDrowsyApp True)" by (simp add: almostDrowsyApp_eq)
  have h4: "driverState ((readyApp True)\<lparr>driverState := DROWSY, miraState := LISTENING\<rparr>)
              = DROWSY" by simp
  have init: "miraState (almostDrowsyApp True) = IDLE" "aiRef (almostDrowsyApp True)"
    "liveSessions (almostDrowsyApp True) = 0"
    by (simp_all add: almostDrowsyApp_eq readyApp_eq initialApp_def)
  from drowsy_escalation [OF h1 eyesClosed_closedEye h3 h4, of "mockFunctions noMaps"]
    h1 h3 eyesClosed_closedEye init
  show ?thesis by simp
qed

theorem drowsy_without_session_counterexample:
  "requested (step (mockFunctions noMaps) (DetectionTick (Face closedEye closedEye))
       (almostDrowsyApp False)) = [RequestDrowsy]
   \<and> driverState (step (mockFunctions noMaps) (DetectionTick (Face closedEye closedEye))
       (almostDrowsyApp False)) = ENGAGED
   \<and> liveSessions (step (mockFunctions noMaps) (DetectionTick (Face closedEye closedEye))
       (almostDrowsyApp False)) = 0
   \<and> miraState (step (mockFunctions noMaps) (DetectionTick (Face closedEye closedEye))
       (almostDrowsyApp False)) = IDLE"
proof -
  have m: "monitoring (almostDrowsyApp False)"
    using readyApp_monitoring[of False] by (simp add: almostDrowsyApp_eq monitoring_def)
  have e: "10 \<le> eyeClosedFramesRef (almostDrowsyApp False)" by (simp add: almostDrowsyApp_eq)
  show ?thesis
    unfolding step_becomes_drowsy[OF m eyesClosed_closedEye e]
    by (simp add: escalationEffect_def startLiveSession_def almostDrowsyApp_eq readyApp_eq
        initialApp_def)
qed

section \<open>Live session\<close>

lemma engagedApp_eq:
  "engagedApp = (initialApp True)\<lparr>modelsLoaded := True, permissionsGranted := True,
      noFaceFramesRef := 0, eyeClosedFramesRef := 11, requested := [RequestDrowsy],
      miraState := LISTENING, outputAudioContextRef := True, analyserNode := True,
      liveSessions := 1, driverState := ENGAGED, sessionPromiseRef := True,
      sent := [SendText drowsyText]\<rparr>"
proof -
  have m: "monitoring (almostDrowsyApp True)"
    using readyApp_monitoring[of True] by (simp add: almostDrowsyApp_eq monitoring_def)
  have e: "10 \<le> eyeClosedFramesRef (almostDrowsyApp True)" by (simp add: almostDrowsyApp_eq)
  have 1: "step (mockFunctions noMaps) (DetectionTick (Face closedEye closedEye)) (almostDrowsyApp True)
     = (initialApp True)\<lparr>modelsLoaded := True, permissionsGranted := True,
      noFaceFramesRef := 0, eyeClosedFramesRef := 11, requested := [RequestDrowsy],
      miraState := LISTENING, outputAudioContextRef := True, analyserNode := True,
      liveSessions := 1, connecting := 1, driverState := ENGAGED\<rparr>"
    unfolding step_becomes_drowsy[OF m eyesClosed_closedEye e]
    by (simp add: escalationEffect_def startLiveSession_def almostDrowsyApp_eq readyApp_eq
        initialApp_def)
  show ?thesis
    unfolding engagedApp_def run.simps 1
    by (simp add: step_def connected_def runEffects_def escalationDeps_def expiryDeps_def
        initialApp_def)
qed

lemma dispatch_answers:
  assumes "handlersKeepSession reg" "sessionPromiseRef s"
  shows "\<exists>answered results. subseq answered fcs \<and> length results = length answered
           \<and> sent (snd (dispatch reg fcs s)) = sent s @ map toolResponse (zip answered results)"
  using assms(2)
proof (induction fcs arbitrary: s)
  case Nil
  have "subseq [] ([] :: FunctionCall list) \<and> length ([] :: jsvalue list) = length ([] :: FunctionCall list)
           \<and> sent (snd (dispatch reg [] s)) = sent s @ map toolResponse (zip [] [])"
    by simp
  then show ?case by blast
next
  case (Cons fc fcs)
  show ?case
  proof (cases "reg (name_fc fc)")
    case None
    from Cons.IH[OF Cons.prems] obtain answered results where
      "subseq answered fcs" "length results = length answered"
      "sent (snd (dispatch reg fcs s)) = sent s @ map toolResponse (zip answered results)"
      by blast
    with None have "subseq answered (fc # fcs) \<and> length results = length answered
      \<and> sent (snd (dispatch reg (fc # fcs) s)) = sent s @ map toolResponse (zip answered results)"
      by auto
    then show ?thesis by blast
  next
    case (Some func)
    show ?thesis
    proof (cases "func (args_fc fc) s")
      case (Inl e)
      with Some have "subseq [] (fc # fcs) \<and> length ([] :: jsvalue list) = length ([] :: FunctionCall list)
        \<and> sent (snd (dispatch reg (fc # fcs) s)) = sent s @ map toolResponse (zip [] [])"
        by simp
      then show ?thesis by blast
    next
      case (Inr v)
      obtain result s1 where v: "v = (result, s1)" by (cases v)
      from assms(1) Some Inr v have keep: "sessionPromiseRef s1 = sessionPromiseRef s" "sent s1 = sent s"
        unfolding handlersKeepSession_def by blast+
      let ?s2 = "s1\<lparr>sent := sent s1 @ [SendToolResponse (id_fc fc) (name_fc fc) result]\<rparr>"
      have d: "dispatch reg (fc # fcs) s = dispatch reg fcs ?s2"
        using Some Inr v keep Cons.prems by simp
      have "sessionPromiseRef ?s2" using keep Cons.prems by simp
      from Cons.IH[OF this] obtain answered results where ar:
        "subseq answered fcs" "length results = length answered"
        "sent (snd (dispatch reg fcs ?s2)) = sent ?s2 @ map toolResponse (zip answered results)"
        by blast
      have "subseq (fc # answered) (fc # fcs) \<and> length (result # results) = length (fc # answered)
        \<and> sent (snd (dispatch reg (fc # fcs) s))
            = sent s @ map toolResponse (zip (fc # answered) (result # results))"
        using ar keep unfolding d by (simp add: toolResponse_def)
      then show ?thesis by blast
    qed
  qed
qed

lemma dispatch_all_answered:
  assumes "handlersKeepSession reg" "sessionPromiseRef s"
    and "\<forall>fc \<in> set fcs. \<exists>func. reg (name_fc fc) = Some func \<and> (\<forall>t. \<exists>v. func (args_fc fc) t = Inr v)"
  shows "fst (dispatch reg fcs s) = None
       \<and> (\<exists>results. length results = length fcs
           \<and> sent (snd (dispatch reg fcs s)) = sent s @ map toolResponse (zip fcs results))"
  using assms(2,3)
proof (induction fcs arbitrary: s)
  case Nil
  have "length ([] :: jsvalue list) = length ([] :: FunctionCall list)
           \<and> sent (snd (dispatch reg [] s)) = sent s @ map toolResponse (zip [] [])"
    by simp
  then show ?case by auto
next
  case (Cons fc fcs)
  from Cons.prems(2) obtain func where f: "reg (name_fc fc) = Some func"
    and ok: "\<forall>t. \<exists>v. func (args_fc fc) t = Inr v" by auto
  from ok obtain result s1 where r: "func (args_fc fc) s = Inr (result, s1)" by (metis surj_pair)
  from assms(1) f r have keep: "sessionPromiseRef s1 = sessionPromiseRef s" "sent s1 = sent s"
    unfolding handlersKeepSession_def by blast+
  let ?s2 = "s1\<lparr>sent := sent s1 @ [SendToolResponse (id_fc fc) (name_fc fc) result]\<rparr>"
  have d: "dispatch reg (fc # fcs) s = dispatch reg fcs ?s2"
    using f r keep Cons.prems(1) by simp
  have sp: "sessionPromiseRef ?s2" using keep Cons.prems(1) by simp
  have rest: "\<forall>fc \<in> set fcs. \<exists>func. reg (name_fc fc) = Some func \<and> (\<forall>t. \<exists>v. func (args_fc fc) t = Inr v)"
    using Cons.prems(2) by simp
  from Cons.IH[OF sp rest] obtain results where ar:
    "fst (dispatch reg fcs ?s2) = None" "length results = length fcs"
    "sent (snd (dispatch reg fcs ?s2)) = sent ?s2 @ map toolResponse (zip fcs results)"
    by blast
  have "length (result # results) = length (fc # fcs)
        \<and> sent (snd (dispatch reg (fc # fcs) s))
            = sent s @ map toolResponse (zip (fc # fcs) (result # results))"
    using ar keep unfolding d by (simp add: toolResponse_def)
  moreover have "fst (dispatch reg (fc # fcs) s) = None" unfolding d by (rule ar(1))
  ultimately show ?case by blast
qed

lemma mockFunctions_keep: "handlersKeepSession (mockFunctions g)"
  by (auto simp: handlersKeepSession_def mockFunctions_def objectPrototype_def
      find_nearby_places_def play_spotify_song_def split: if_splits option.splits)

lemma dispatch_append:
  "dispatch reg (pre @ post) s =
     (case fst (dispatch reg pre s) of
        None \<Rightarrow> dispatch reg post (snd (dispatch reg pre s))
      | Some e \<Rightarrow> dispatch reg pre s)"
  by (induction pre arbitrary: s) (simp_all split: option.splits sum.splits prod.splits)

lemma dispatch_session:
  assumes "handlersKeepSession reg"
  shows "sessionPromiseRef (snd (dispatch reg fcs s)) = sessionPromiseRef s"
proof (induction fcs arbitrary: s)
  case Nil
  then show ?case by simp
next
  case (Cons fc fcs)
  show ?case
  proof (cases "reg (name_fc fc)")
    case None
    then show ?thesis using Cons.IH by simp
  next
    case (Some func)
    show ?thesis
    proof (cases "func (args_fc fc) s")
      case (Inl e)
      with Some show ?thesis by simp
    next
      case (Inr v)
      obtain result s1 where v: "v = (result, s1)" by (cases v)
      from assms Some Inr v have "sessionPromiseRef s1 = sessionPromiseRef s"
        unfolding handlersKeepSession_def by blast
      with Some Inr v Cons.IH show ?thesis by simp
    qed
  qed
qed

lemma dispatch_frame:
  assumes h: "\<And>name func a s r s1. reg name = Some func \<Longrightarrow> func a s = Inr (r, s1) \<Longrightarrow> f s1 = f s"
    and u: "\<And>s x. f (s\<lparr>sent := x\<rparr>) = f s"
  shows "f (snd (dispatch reg fcs s)) = f s"
proof (induction fcs arbitrary: s)
  case Nil
  then show ?case by simp
next
  case (Cons fc fcs)
  show ?case
  proof (cases "reg (name_fc fc)")
    case None
    then show ?thesis using Cons.IH by simp
  next
    case (Some func)
    show ?thesis
    proof (cases "func (args_fc fc) s")
      case (Inl e)
      with Some show ?thesis by simp
    next
      case (Inr v)
      obtain result s1 where v: "v = (result, s1)" by (cases v)
      from h[OF Some] Inr v have "f s1 = f s" by blast
      with Some Inr v Cons.IH u show ?thesis by simp
    qed
  qed
qed

lemma mock_frame:
  assumes "mockFunctions g name = Some func" "func a s = Inr (result, s1)"
  shows "nextAudioStartTimeRef s1 = nextAudioStartTimeRef s"
    and "isEmergency s1 = isEmergency s"
    and "emergencyTimerRef s1 = emergencyTimerRef s"
  using assms
  by (auto simp: mockFunctions_def objectPrototype_def find_nearby_places_def
      play_spotify_song_def split: if_splits option.splits)

text \<open>
  The countdown interval runs only while \<open>isEmergency\<close> holds, and a new interval is created
  only when \<open>isEmergency\<close> is false: there is never more than one, which is why one
  boolean stands for the timer ref and its interval.
\<close>

lemma onmessage_timer:
  "isEmergency (onmessage (mockFunctions g) now m s) = isEmergency s
   \<and> emergencyTimerRef (onmessage (mockFunctions g) now m s) = emergencyTimerRef s"
proof -
  have t: "isEmergency (transcribe m s) = isEmergency s"
    "emergencyTimerRef (transcribe m s) = emergencyTimerRef s"
    by (simp_all add: transcribe_def Let_def split: option.splits)
  have p: "isEmergency (playInline now a x) = isEmergency x"
    "emergencyTimerRef (playInline now a x) = emergencyTimerRef x" for a x
    by (simp_all add: playInline_def raiseCursor_def startSource_def Let_def
        split: option.splits sum.splits)
  show ?thesis
  proof (cases "functionCalls m")
    case None
    then show ?thesis by (simp add: onmessage_def Let_def t p)
  next
    case (Some fcs)
    let ?s1 = "(transcribe m s)\<lparr>miraState := THINKING\<rparr>"
    obtain err s2 where d: "dispatch (mockFunctions g) fcs ?s1 = (err, s2)"
      by (cases "dispatch (mockFunctions g) fcs ?s1")
    have "isEmergency (snd (dispatch (mockFunctions g) fcs ?s1)) = isEmergency ?s1"
      by (rule dispatch_frame) (simp_all add: mock_frame)
    moreover have "emergencyTimerRef (snd (dispatch (mockFunctions g) fcs ?s1)) = emergencyTimerRef ?s1"
      by (rule dispatch_frame) (simp_all add: mock_frame)
    ultimately have s2: "isEmergency s2 = isEmergency s" "emergencyTimerRef s2 = emergencyTimerRef s"
      using d t by simp_all
    show ?thesis using Some d s2 by (cases err) (simp_all add: onmessage_def Let_def p)
  qed
qed

lemma handle_timer:
  assumes "emergencyTimerRef s \<longrightarrow> isEmergency s"
  shows "emergencyTimerRef (handle (mockFunctions g) e s)
         \<longrightarrow> isEmergency (handle (mockFunctions g) e s)"
proof (cases e)
  case (ServerMessage now m)
  then show ?thesis using assms onmessage_timer[of g now m s] by simp
next
  case (DetectionTick d)
  then show ?thesis using assms
    by (cases d) (simp_all add: detectionCallback_def Let_def split: sum.splits)
qed (use assms in \<open>auto simp add: emergencyInterval_def cancelEmergency_def connected_def
       onerror_def onclose_def\<close>)

lemma runEffects_timer:
  assumes "emergencyTimerRef new \<longrightarrow> isEmergency new"
  shows "emergencyTimerRef (runEffects old new) \<longrightarrow> isEmergency (runEffects old new)"
  using assms
  by (simp add: runEffects_def escalationEffect_def expiryEffect_def startLiveSession_def Let_def)

lemma timer_runs_only_in_emergency:
  assumes "emergencyTimerRef s \<longrightarrow> isEmergency s"
  shows "emergencyTimerRef (step (mockFunctions g) e s)
         \<longrightarrow> isEmergency (step (mockFunctions g) e s)"
  unfolding step_def by (rule runEffects_timer) (rule handle_timer[OF assms])

text \<open>
  Claim C2, as the code has it. For a registry whose handlers do not touch the session and
  a live session, the responses that the dispatch loop sends for a batch answer a
  subsequence of the batch, in order, one response per answered call with that call's id
  and name. If every call of the batch names a handler that returns, every call is
  answered. At every position of a batch, after any calls \<open>pre\<close> that ended without a throw
  and before any calls \<open>post\<close>: a call whose handler returns gets its response and the loop
  goes on with \<open>post\<close>; a call whose name has no handler is skipped without a response and
  the loop goes on with \<open>post\<close>; a call whose handler throws gets no response and ends the
  loop, so that no call of \<open>post\<close> is dispatched. What follows a throw changes nothing.
\<close>

theorem tool_dispatch:
  assumes "handlersKeepSession reg" and "sessionPromiseRef s"
  shows "(\<exists>answered results.
            subseq answered fcs \<and> length results = length answered
            \<and> sent (snd (dispatch reg fcs s))
                = sent s @ map toolResponse (zip answered results))
       \<and> ((\<forall>fc \<in> set fcs. \<exists>func. reg (name_fc fc) = Some func
                \<and> (\<forall>t. \<exists>v. func (args_fc fc) t = Inr v))
          \<longrightarrow> fst (dispatch reg fcs s) = None
              \<and> (\<exists>results. length results = length fcs
                    \<and> sent (snd (dispatch reg fcs s))
                        = sent s @ map toolResponse (zip fcs results)))
       \<and> (fst (dispatch reg pre s) = None \<longrightarrow>
            (\<forall>func result s1.
               reg (name_fc fc) = Some func
               \<and> func (args_fc fc) (snd (dispatch reg pre s)) = Inr (result, s1)
               \<longrightarrow> dispatch reg (pre @ fc # post) s
                     = dispatch reg post
                         (s1\<lparr>sent := sent (snd (dispatch reg pre s))
                                 @ [SendToolResponse (id_fc fc) (name_fc fc) result]\<rparr>))
            \<and> (reg (name_fc fc) = None
               \<longrightarrow> dispatch reg (pre @ fc # post) s
                     = dispatch reg post (snd (dispatch reg pre s)))
            \<and> (\<forall>func e.
               reg (name_fc fc) = Some func
               \<and> func (args_fc fc) (snd (dispatch reg pre s)) = Inl e
               \<longrightarrow> dispatch reg (pre @ fc # post) s = (Some e, snd (dispatch reg pre s))))
       \<and> (\<forall>e. fst (dispatch reg pre s) = Some e
            \<longrightarrow> dispatch reg (pre @ post) s = dispatch reg pre s)"
proof -
  let ?t = "snd (dispatch reg pre s)"
  note a = dispatch_answers[OF assms, of fcs]
  have b: "fst (dispatch reg fcs s) = None
              \<and> (\<exists>results. length results = length fcs
                    \<and> sent (snd (dispatch reg fcs s))
                        = sent s @ map toolResponse (zip fcs results))"
    if "\<forall>fc \<in> set fcs. \<exists>func. reg (name_fc fc) = Some func
                \<and> (\<forall>t. \<exists>v. func (args_fc fc) t = Inr v)"
    using dispatch_all_answered[OF assms that] .
  have live: "sessionPromiseRef ?t" using dispatch_session[OF assms(1)] assms(2) by simp
  have c: "dispatch reg (pre @ fc # post) s
           = dispatch reg post
               (s1\<lparr>sent := sent ?t @ [SendToolResponse (id_fc fc) (name_fc fc) result]\<rparr>)"
    if "fst (dispatch reg pre s) = None"
      "reg (name_fc fc) = Some func \<and> func (args_fc fc) ?t = Inr (result, s1)"
    for func result s1
  proof -
    from assms(1) that(2) have "sessionPromiseRef s1 = sessionPromiseRef ?t" "sent s1 = sent ?t"
      unfolding handlersKeepSession_def by blast+
    then show ?thesis using that live by (simp add: dispatch_append)
  qed
  have d: "dispatch reg (pre @ fc # post) s = dispatch reg post ?t"
    if "fst (dispatch reg pre s) = None" "reg (name_fc fc) = None"
    using that by (simp add: dispatch_append)
  have e: "dispatch reg (pre @ fc # post) s = (Some e, ?t)"
    if "fst (dispatch reg pre s) = None"
      "reg (name_fc fc) = Some func \<and> func (args_fc fc) ?t = Inl e" for func e
    using that by (simp add: dispatch_append)
  have f: "dispatch reg (pre @ post) s = dispatch reg pre s"
    if "fst (dispatch reg pre s) = Some e" for e
    using that by (simp add: dispatch_append)
  from a b c d e f show ?thesis by blast
qed

lemma engaged_session: "sessionPromiseRef engagedApp"
  by (simp add: engagedApp_eq)

lemma good_calls:
  "\<forall>fc \<in> set [songCall, placesCall]. \<exists>func. mockFunctions noMaps (name_fc fc) = Some func
      \<and> (\<forall>t. \<exists>v. func (args_fc fc) t = Inr v)"
  by (simp add: songCall_def placesCall_def mockFunctions_def play_spotify_song_def
      find_nearby_places_def noMaps_def)

lemma dispatch_songCall:
  "fst (dispatch (mockFunctions noMaps) [songCall] engagedApp) = None"
  "sent songPlaying
     = sent engagedApp
       @ [SendToolResponse ''call-3'' ''play_spotify_song''
            (Str ''Now playing Hello by Adele. Enjoy!'')]"
  "sessionPromiseRef songPlaying" "sessionLocation songPlaying = None"
  by (simp_all add: songPlaying_def songCall_def mockFunctions_def play_spotify_song_def
      getProp_def engagedApp_eq initialApp_def)

lemma dispatch_placesCall:
  "sessionPromiseRef t \<Longrightarrow> sessionLocation t = None \<Longrightarrow>
   dispatch (mockFunctions noMaps) [placesCall] t
     = (None, t\<lparr>sent := sent t
          @ [SendToolResponse ''call-4'' ''find_nearby_places''
               (Str ''I can't find nearby places because I don't have your current location.'')]\<rparr>)"
  by (simp add: placesCall_def mockFunctions_def find_nearby_places_def)

theorem tool_dispatch_witness:
  "handlersKeepSession (mockFunctions noMaps) \<and> sessionPromiseRef engagedApp
   \<and> fst (dispatch (mockFunctions noMaps) [songCall] engagedApp) = None
   \<and> mockFunctions noMaps (name_fc unknownCall) = None
   \<and> mockFunctions noMaps (name_fc failingCall) = Some play_spotify_song
   \<and> play_spotify_song (args_fc failingCall)
        (snd (dispatch (mockFunctions noMaps) [songCall] engagedApp)) = Inl TypeError
   \<and> fst (dispatch (mockFunctions noMaps) [songCall, placesCall] engagedApp) = None
   \<and> sent (snd (dispatch (mockFunctions noMaps) [songCall, unknownCall, placesCall] engagedApp))
       = sent engagedApp
         @ [SendToolResponse ''call-3'' ''play_spotify_song''
              (Str ''Now playing Hello by Adele. Enjoy!''),
            SendToolResponse ''call-4'' ''find_nearby_places''
              (Str ''I can't find nearby places because I don't have your current location.'')]
   \<and> fst (dispatch (mockFunctions noMaps) [songCall, failingCall, placesCall] engagedApp)
       = Some TypeError
   \<and> sent (snd (dispatch (mockFunctions noMaps) [songCall, failingCall, placesCall] engagedApp))
       = sent engagedApp
         @ [SendToolResponse ''call-3'' ''play_spotify_song''
              (Str ''Now playing Hello by Adele. Enjoy!'')]"
proof -
  have h1: "fst (dispatch (mockFunctions noMaps) [songCall] engagedApp) = None"
    by (rule dispatch_songCall)
  have h3: "mockFunctions noMaps (name_fc unknownCall) = None"
    by (simp add: unknownCall_def mockFunctions_def objectPrototype_def)
  have h4: "mockFunctions noMaps (name_fc failingCall) = Some play_spotify_song
            \<and> play_spotify_song (args_fc failingCall)
                 (snd (dispatch (mockFunctions noMaps) [songCall] engagedApp)) = Inl TypeError"
    by (simp add: failingCall_def mockFunctions_def play_spotify_song_def)
  note T = tool_dispatch [OF mockFunctions_keep engaged_session,
      where fcs = "[songCall, placesCall]" and pre = "[songCall]" and post = "[placesCall]"
        and g1 = noMaps]
  from T good_calls
  have a: "fst (dispatch (mockFunctions noMaps) [songCall, placesCall] engagedApp) = None"
    by blast
  from T[where fc = unknownCall] h1 h3
  have "dispatch (mockFunctions noMaps) ([songCall] @ unknownCall # [placesCall]) engagedApp
       = dispatch (mockFunctions noMaps) [placesCall] songPlaying"
    unfolding songPlaying_def by blast
  then have b: "sent (snd (dispatch (mockFunctions noMaps) [songCall, unknownCall, placesCall]
         engagedApp))
       = sent engagedApp
         @ [SendToolResponse ''call-3'' ''play_spotify_song''
              (Str ''Now playing Hello by Adele. Enjoy!''),
            SendToolResponse ''call-4'' ''find_nearby_places''
              (Str ''I can't find nearby places because I don't have your current location.'')]"
    unfolding append.simps dispatch_placesCall[OF dispatch_songCall(3,4)]
    by (simp add: dispatch_songCall(2) del: dispatch.simps)
  from T[where fc = failingCall] h1 h4
  have "dispatch (mockFunctions noMaps) ([songCall] @ failingCall # [placesCall]) engagedApp
       = (Some TypeError, songPlaying)"
    unfolding songPlaying_def by blast
  then have c: "fst (dispatch (mockFunctions noMaps) [songCall, failingCall, placesCall]
         engagedApp) = Some TypeError"
    "sent (snd (dispatch (mockFunctions noMaps) [songCall, failingCall, placesCall] engagedApp))
       = sent engagedApp
         @ [SendToolResponse ''call-3'' ''play_spotify_song''
              (Str ''Now playing Hello by Adele. Enjoy!'')]"
    unfolding append.simps by (simp_all add: dispatch_songCall(2) del: dispatch.simps)
  show ?thesis
    using mockFunctions_keep[of noMaps] engaged_session h1 h3 h4 a b c by blast
qed

theorem tool_call_dropped_counterexample:
  "sessionPromiseRef engagedApp
   \<and> sent (step (mockFunctions noMaps) (ServerMessage 0 (toolMessage [unknownCall])) engagedApp)
       = sent engagedApp
   \<and> sent (step (mockFunctions noMaps) (ServerMessage 0 (toolMessage [failingCall, songCall]))
         engagedApp) = sent engagedApp
   \<and> unhandled (step (mockFunctions noMaps) (ServerMessage 0 (toolMessage [failingCall, songCall]))
         engagedApp) = [TypeError]"
proof -
  have t: "transcribe (toolMessage fcs) engagedApp = engagedApp" for fcs
    by (simp add: transcribe_def toolMessage_def)
  have u: "dispatch (mockFunctions noMaps) [unknownCall] (engagedApp\<lparr>miraState := THINKING\<rparr>)
           = (None, engagedApp\<lparr>miraState := THINKING\<rparr>)"
    by (simp add: unknownCall_def mockFunctions_def objectPrototype_def)
  have f: "dispatch (mockFunctions noMaps) [failingCall, songCall] (engagedApp\<lparr>miraState := THINKING\<rparr>)
           = (Some TypeError, engagedApp\<lparr>miraState := THINKING\<rparr>)"
    by (simp add: failingCall_def mockFunctions_def play_spotify_song_def)
  have m1: "onmessage (mockFunctions noMaps) 0 (toolMessage [unknownCall]) engagedApp
           = engagedApp\<lparr>miraState := THINKING\<rparr>"
    unfolding onmessage_def t Let_def
    by (simp add: toolMessage_def u playInline_def del: dispatch.simps)
  have m2: "onmessage (mockFunctions noMaps) 0 (toolMessage [failingCall, songCall]) engagedApp
           = engagedApp\<lparr>miraState := THINKING, unhandled := unhandled engagedApp @ [TypeError]\<rparr>"
    unfolding onmessage_def t Let_def
    by (simp add: toolMessage_def f del: dispatch.simps)
  show ?thesis
    by (simp add: step_def engaged_session m1 m2 runEffects_frame)
       (simp add: runEffects_def escalationDeps_def expiryDeps_def escalationEffect_def
          engagedApp_eq initialApp_def)
qed

section \<open>Scheduled playback\<close>

lemma decode_sample: "decode ''AAAAAA=='' = Inr [0, 0, 0, 0]"
  by code_simp

lemma decodeAudioData_sample: "decodeAudioData [0, 0, 0, 0] 24000 (Suc 0) = Inr (silence 2)"
proof -
  have "[0..<2] = [0, Suc 0]" by (simp add: numeral_2_eq_2)
  moreover have "replicate 2 (0::real) = [0, 0]" by (simp add: numeral_2_eq_2)
  ultimately show ?thesis by (simp add: decodeAudioData_def silence_def)
qed

lemma duration_fl:
  assumes "0 < sampleRate_ab b"
  shows "\<exists>x. 0 \<le> x \<and> duration b = fl x"
proof -
  have "0 \<le> real (length_ab b) / sampleRate_ab b" using assms by simp
  moreover have "duration b = fl (real (length_ab b) / sampleRate_ab b)"
    using assms by (simp add: duration_def)
  ultimately show ?thesis by blast
qed

lemma duration_decoded:
  "decodeAudioData bytes 24000 n = Inr b \<Longrightarrow> \<exists>x. 0 \<le> x \<and> duration b = fl x"
  by (rule duration_fl) (auto simp: decodeAudioData_def Let_def split: if_splits)

lemma cursorOk_fl:
  assumes "fle (Fin y) (fl w)"
  shows "cursorOk (fl w)"
proof (cases "fl w")
  case (Fin r)
  then show ?thesis using fl_idem[of w r] by (simp add: cursorOk_def isFinite_def)
qed (use assms in \<open>simp_all add: cursorOk_def\<close>)

lemma cursor_raise:
  assumes "cursorOk c"
  shows "fle c (fmax c (Fin now))" "isFinite (Fin now) \<Longrightarrow> cursorOk (fmax c (Fin now))"
  using assms by (cases c; auto simp add: cursorOk_def isFinite_def max_def)+

lemma cursor_advance:
  assumes "cursorOk c" "0 \<le> x"
  shows "fle c (fadd (fmax c (Fin now)) (fl x)) \<and> cursorOk (fadd (fmax c (Fin now)) (fl x))"
proof (cases c)
  case (Fin y)
  with assms(1) have y: "fl y = Fin y" by (simp add: cursorOk_def isFinite_def)
  have nn: "fl x \<noteq> NegInf" using assms(2) rd_nonneg[of x] pow2_pos[of 1024]
    by (auto simp add: fl_NegInf)
  show ?thesis
  proof (cases "fl x")
    case (Fin z)
    then have z: "z = rd x" by (simp add: fl_Fin)
    have "0 \<le> z" unfolding z using assms(2) by (rule rd_nonneg)
    then have "y \<le> max y now + z" by simp
    then have "fle (fl y) (fl (max y now + z))" by (rule fl_mono)
    then have le: "fle (Fin y) (fl (max y now + z))" by (simp add: y)
    then show ?thesis using cursorOk_fl[OF le] \<open>c = Fin y\<close> Fin by simp
  next
    case PosInf
    then show ?thesis using \<open>c = Fin y\<close> by (simp add: cursorOk_def)
  next
    case NegInf
    with nn show ?thesis by simp
  next
    case NaN
    then show ?thesis by simp
  qed
next
  case PosInf
  have nn: "fl x \<noteq> NegInf" using assms(2) rd_nonneg[of x] pow2_pos[of 1024]
    by (auto simp add: fl_NegInf)
  then show ?thesis using PosInf by (cases "fl x") (simp_all add: cursorOk_def)
qed (use assms in \<open>simp_all add: cursorOk_def isFinite_def\<close>)

lemma cursor_advance0:
  assumes "cursorOk c" "0 \<le> x"
  shows "fle c (fadd c (fl x)) \<and> cursorOk (fadd c (fl x))"
proof (cases c)
  case (Fin y)
  then show ?thesis using cursor_advance[OF assms, where now = y] by simp
next
  case PosInf
  then show ?thesis using cursor_advance[OF assms, where now = 0] by simp
qed (use assms in \<open>simp_all add: cursorOk_def isFinite_def\<close>)

lemma playInline_mono:
  assumes "cursorOk (nextAudioStartTimeRef s)"
  shows "fle (nextAudioStartTimeRef s) (nextAudioStartTimeRef (playInline now a s))"
    "isFinite (Fin now) \<Longrightarrow> cursorOk (nextAudioStartTimeRef (playInline now a s))"
proof -
  let ?c = "nextAudioStartTimeRef s"
  have r: "fle ?c ?c" using assms by (cases ?c) (simp_all add: cursorOk_def isFinite_def)
  have adv: "fle ?c (fadd (fmax ?c (Fin now)) (duration b))
      \<and> cursorOk (fadd (fmax ?c (Fin now)) (duration b))"
    if "decodeAudioData bytes 24000 1 = Inr b" for bytes b
  proof -
    from duration_decoded[OF that] obtain x where "0 \<le> x" "duration b = fl x" by blast
    then show ?thesis using cursor_advance[OF assms, where x = x and now = now] by simp
  qed
  show "fle ?c (nextAudioStartTimeRef (playInline now a s))"
    using r cursor_raise(1)[OF assms, where now = now] adv
    by (auto simp add: playInline_def raiseCursor_def startSource_def Let_def
        split: option.splits sum.splits)
  show "cursorOk (nextAudioStartTimeRef (playInline now a s))" if "isFinite (Fin now)"
    using assms cursor_raise(2)[OF assms that] adv
    by (auto simp add: playInline_def raiseCursor_def startSource_def Let_def
        split: option.splits sum.splits)
qed

lemma transcribe_cursor: "nextAudioStartTimeRef (transcribe m s) = nextAudioStartTimeRef s"
  by (simp add: transcribe_def Let_def split: option.splits)

lemma dispatch_cursor:
  "nextAudioStartTimeRef (snd (dispatch (mockFunctions g) fcs s)) = nextAudioStartTimeRef s"
  by (rule dispatch_frame) (simp_all add: mock_frame)

lemma onmessage_mono:
  assumes "cursorOk (nextAudioStartTimeRef s)"
  shows "fle (nextAudioStartTimeRef s)
           (nextAudioStartTimeRef (onmessage (mockFunctions g) now m s))"
    "isFinite (Fin now) \<Longrightarrow>
       cursorOk (nextAudioStartTimeRef (onmessage (mockFunctions g) now m s))"
proof -
  let ?c = "nextAudioStartTimeRef s"
  have r: "fle ?c ?c" using assms by (cases ?c) (simp_all add: cursorOk_def isFinite_def)
  have both: "fle ?c (nextAudioStartTimeRef (onmessage (mockFunctions g) now m s))
      \<and> (isFinite (Fin now) \<longrightarrow>
            cursorOk (nextAudioStartTimeRef (onmessage (mockFunctions g) now m s)))"
  proof (cases "functionCalls m")
    case None
    have c1: "cursorOk (nextAudioStartTimeRef (transcribe m s))"
      using assms by (simp add: transcribe_cursor)
    show ?thesis using None playInline_mono[OF c1, where now = now and a = "inlineData m"]
      by (simp add: onmessage_def Let_def transcribe_cursor)
  next
    case (Some fcs)
    let ?s1 = "(transcribe m s)\<lparr>miraState := THINKING\<rparr>"
    obtain err s2 where d: "dispatch (mockFunctions g) fcs ?s1 = (err, s2)"
      by (cases "dispatch (mockFunctions g) fcs ?s1")
    have c2: "nextAudioStartTimeRef s2 = ?c"
      using dispatch_cursor[of g fcs ?s1] d by (simp add: transcribe_cursor)
    then have ok2: "cursorOk (nextAudioStartTimeRef s2)" using assms by simp
    show ?thesis
    proof (cases err)
      case None
      with Some d c2 playInline_mono[OF ok2, where now = now and a = "inlineData m"] show ?thesis
        by (simp add: onmessage_def Let_def)
    next
      case (Some e)
      with \<open>functionCalls m = Some fcs\<close> d c2 r assms show ?thesis
        by (simp add: onmessage_def Let_def)
    qed
  qed
  then show "fle ?c (nextAudioStartTimeRef (onmessage (mockFunctions g) now m s))"
    "isFinite (Fin now) \<Longrightarrow>
       cursorOk (nextAudioStartTimeRef (onmessage (mockFunctions g) now m s))"
    by blast+
qed

lemma step_mono:
  assumes "cursorOk (nextAudioStartTimeRef s)"
  shows "fle (nextAudioStartTimeRef s) (nextAudioStartTimeRef (step (mockFunctions g) e s))"
    "clockOk e \<Longrightarrow> cursorOk (nextAudioStartTimeRef (step (mockFunctions g) e s))"
proof -
  let ?c = "nextAudioStartTimeRef s"
  have r: "fle ?c ?c" using assms by (cases ?c) (simp_all add: cursorOk_def isFinite_def)
  have both: "fle ?c (nextAudioStartTimeRef (handle (mockFunctions g) e s))
      \<and> (clockOk e \<longrightarrow> cursorOk (nextAudioStartTimeRef (handle (mockFunctions g) e s)))"
  proof (cases e)
    case (ServerMessage now m)
    then show ?thesis using onmessage_mono[OF assms, where g = g and now = now and m = m] r assms
      by (simp add: clockOk_def)
  next
    case (DetectionTick d)
    then show ?thesis using r assms
      by (cases d) (simp_all add: detectionCallback_def Let_def split: sum.splits)
  qed (use r assms in \<open>simp_all add: emergencyInterval_def cancelEmergency_def connected_def
         onerror_def onclose_def\<close>)
  then show "fle ?c (nextAudioStartTimeRef (step (mockFunctions g) e s))"
    "clockOk e \<Longrightarrow> cursorOk (nextAudioStartTimeRef (step (mockFunctions g) e s))"
    by (simp_all add: step_def runEffects_frame)
qed

lemma run_mono:
  assumes "cursorOk (nextAudioStartTimeRef s)" "list_all clockOk es"
  shows "fle (nextAudioStartTimeRef s) (nextAudioStartTimeRef (run (mockFunctions g) es s))"
  using assms
proof (induction es arbitrary: s)
  case Nil
  then show ?case
    by (cases "nextAudioStartTimeRef s") (simp_all add: cursorOk_def isFinite_def)
next
  case (Cons e es)
  from Cons.prems(2) have e: "clockOk e" and es: "list_all clockOk es" by simp_all
  note s1 = step_mono[OF Cons.prems(1), where g = g and e = e]
  from Cons.IH[OF s1(2)[OF e] es] s1(1) show ?case by (simp add: fle_trans)
qed

lemma schedule_eq:
  "started (schedule now b s)
     = started s @ [(fmax (nextAudioStartTimeRef s) (Fin now), duration b)]"
  "nextAudioStartTimeRef (schedule now b s)
     = fadd (fmax (nextAudioStartTimeRef s) (Fin now)) (duration b)"
  by (simp_all add: schedule_def startSource_def raiseCursor_def)

lemma duration_silence: "duration (silence n) = fdiv (Fin (real n)) (Fin 24000)"
  by (simp add: duration_def silence_def)

lemma cursor_eval_1: "fdiv (Fin 2) (Fin 24000) = Fin (6148914691236517 / 73786976294838206464)"
  by (rule fdiv_eval, simp, rule fl_normal[where e = "- 14"]) (simp_all add: pow2_def rne_def)

lemma cursor_eval_2: "fadd (Fin 1) (Fin (6148914691236517 / 73786976294838206464)) = Fin (1125993731834861 / 1125899906842624)"
  unfolding fadd.simps
  by (rule fl_normal[where e = "0"]) (simp_all add: pow2_def rne_def)

lemma cursor_eval_3: "fdiv (Fin 12000) (Fin 24000) = Fin (1 / 2)"
  by (rule fdiv_eval, simp, rule fl_normal[where e = "- 1"]) (simp_all add: pow2_def rne_def)

lemma cursor_eval_4: "fdiv (Fin 7200) (Fin 24000) = Fin (5404319552844595 / 18014398509481984)"
  by (rule fdiv_eval, simp, rule fl_normal[where e = "- 2"]) (simp_all add: pow2_def rne_def)

lemma cursor_eval_5: "fdiv (Fin 9600) (Fin 24000) = Fin (3602879701896397 / 9007199254740992)"
  by (rule fdiv_eval, simp, rule fl_normal[where e = "- 2"]) (simp_all add: pow2_def rne_def)

lemma cursor_eval_6: "fadd (Fin (6148914691236517 / 1152921504606846976)) (Fin (1 / 2)) = Fin (4551638023395781 / 9007199254740992)"
  unfolding fadd.simps
  by (rule fl_normal[where e = "- 1"]) (simp_all add: pow2_def rne_def)

lemma cursor_eval_7: "fadd (Fin (4551638023395781 / 9007199254740992)) (Fin (5404319552844595 / 18014398509481984)) = Fin (3626898899909039 / 4503599627370496)"
  unfolding fadd.simps
  by (rule fl_normal[where e = "- 1"]) (simp_all add: pow2_def rne_def)

lemma cursor_eval_8: "fadd (Fin (3626898899909039 / 4503599627370496)) (Fin (3602879701896397 / 9007199254740992)) = Fin (2714169375428619 / 2251799813685248)"
  unfolding fadd.simps
  by (rule fl_normal[where e = "0"]) (simp_all add: pow2_def rne_def)

lemma cursor_eval_9: "fdiv (Fin 8) (Fin 10) = Fin (3602879701896397 / 4503599627370496)"
  by (rule fdiv_eval, simp, rule fl_normal[where e = "- 1"]) (simp_all add: pow2_def rne_def)

lemma cursor_eval_10: "fadd (Fin (6148914691236517 / 1152921504606846976)) (Fin (3602879701896397 / 4503599627370496)) = Fin (7253797799818079 / 9007199254740992)"
  unfolding fadd.simps
  by (rule fl_normal[where e = "- 1"]) (simp_all add: pow2_def rne_def)

lemmas cursor_evals = cursor_eval_1 cursor_eval_2 cursor_eval_3 cursor_eval_4 cursor_eval_5 cursor_eval_6 cursor_eval_7 cursor_eval_8 cursor_eval_9 cursor_eval_10

lemma speakingApp_eq:
  "speakingApp = engagedApp\<lparr>currentOutputTranscription := ''Hi'', miraState := SPEAKING,
      started := [(Fin 1, Fin (6148914691236517 / 73786976294838206464))],
      nextAudioStartTimeRef := Fin (1125993731834861 / 1125899906842624)\<rparr>"
proof -
  have "playInline 1 (Some ''AAAAAA=='')
          (engagedApp\<lparr>currentOutputTranscription := ''Hi'', miraState := SPEAKING\<rparr>)
        = engagedApp\<lparr>currentOutputTranscription := ''Hi'', miraState := SPEAKING,
            started := [(Fin 1, Fin (6148914691236517 / 73786976294838206464))],
            nextAudioStartTimeRef := Fin (1125993731834861 / 1125899906842624)\<rparr>"
    by (simp add: playInline_def decode_sample decodeAudioData_sample raiseCursor_def
        startSource_def duration_silence engagedApp_eq initialApp_def cursor_evals
        del: fdiv.simps fadd.simps)
  then show ?thesis
    by (simp add: speakingApp_def step_def onmessage_def transcribe_def runEffects_def
        escalationDeps_def expiryDeps_def escalationEffect_def engagedApp_eq initialApp_def)
qed

text \<open>
  Claim C5, as amended. From a cursor that is a double, no event lowers the playback cursor,
  and no sequence of events whose clock readings are doubles does. A decoded buffer that
  arrives at clock time \<open>now\<close> is started at the maximum of the cursor and \<open>now\<close>, and the
  cursor is then the double sum of that start and the buffer's duration; this is what the
  inline audio part of \<open>onmessage\<close> does with a payload that decodes. Three buffers, the
  second and third arriving no later than the first one's start \<open>t0\<close>, start at \<open>t0\<close>, at the
  double sum of \<open>t0\<close> and the first duration, and at the double sum of that and the second
  duration: each starts where the cursor was left.
\<close>

theorem playback_cursor:
  assumes "cursorOk (nextAudioStartTimeRef s)"
  shows "fle (nextAudioStartTimeRef s) (nextAudioStartTimeRef (step (mockFunctions g) e s))
   \<and> (list_all clockOk es \<longrightarrow>
        fle (nextAudioStartTimeRef s) (nextAudioStartTimeRef (run (mockFunctions g) es s)))
   \<and> started (schedule now b s)
       = started s @ [(fmax (nextAudioStartTimeRef s) (Fin now), duration b)]
   \<and> nextAudioStartTimeRef (schedule now b s)
       = fadd (fmax (nextAudioStartTimeRef s) (Fin now)) (duration b)
   \<and> (base64 \<noteq> [] \<and> outputAudioContextRef s \<and> decode base64 = Inr bytes
        \<and> decodeAudioData bytes 24000 1 = Inr b
      \<longrightarrow> playInline now (Some base64) s = schedule now b s)
   \<and> (isFinite (Fin c1) \<and> 0 < sampleRate_ab b1 \<and> 0 < sampleRate_ab b2
        \<and> fle (Fin c2) (fmax (nextAudioStartTimeRef s) (Fin c1))
        \<and> fle (Fin c3) (fmax (nextAudioStartTimeRef s) (Fin c1))
      \<longrightarrow> started (schedule c3 b3 (schedule c2 b2 (schedule c1 b1 s)))
            = started s
              @ [(fmax (nextAudioStartTimeRef s) (Fin c1), duration b1),
                 (fadd (fmax (nextAudioStartTimeRef s) (Fin c1)) (duration b1), duration b2),
                 (fadd (fadd (fmax (nextAudioStartTimeRef s) (Fin c1)) (duration b1))
                    (duration b2), duration b3)])"
proof -
  have 1: "fle (nextAudioStartTimeRef s) (nextAudioStartTimeRef (step (mockFunctions g) e s))"
    using assms by (rule step_mono)
  have 2: "fle (nextAudioStartTimeRef s) (nextAudioStartTimeRef (run (mockFunctions g) es s))"
    if "list_all clockOk es"
    using assms that by (rule run_mono)
  have 4: "playInline now (Some base64) s = schedule now b s"
    if "base64 \<noteq> [] \<and> outputAudioContextRef s \<and> decode base64 = Inr bytes
        \<and> decodeAudioData bytes 24000 1 = Inr b"
    using that by (simp add: playInline_def schedule_def Let_def)
  have 5: "started (schedule c3 b3 (schedule c2 b2 (schedule c1 b1 s)))
            = started s
              @ [(fmax (nextAudioStartTimeRef s) (Fin c1), duration b1),
                 (fadd (fmax (nextAudioStartTimeRef s) (Fin c1)) (duration b1), duration b2),
                 (fadd (fadd (fmax (nextAudioStartTimeRef s) (Fin c1)) (duration b1))
                    (duration b2), duration b3)]"
    if h: "isFinite (Fin c1) \<and> 0 < sampleRate_ab b1 \<and> 0 < sampleRate_ab b2
        \<and> fle (Fin c2) (fmax (nextAudioStartTimeRef s) (Fin c1))
        \<and> fle (Fin c3) (fmax (nextAudioStartTimeRef s) (Fin c1))"
  proof -
    define t0 where "t0 = fmax (nextAudioStartTimeRef s) (Fin c1)"
    define t1 where "t1 = fadd t0 (duration b1)"
    define t2 where "t2 = fadd t1 (duration b2)"
    from h have c: "fle (Fin c2) t0" "fle (Fin c3) t0" by (simp_all add: t0_def)
    have ok0: "cursorOk t0" unfolding t0_def using assms h by (intro cursor_raise(2)) simp_all
    from h duration_fl[of b1] obtain x1 where x1: "0 \<le> x1" "duration b1 = fl x1" by blast
    from h duration_fl[of b2] obtain x2 where x2: "0 \<le> x2" "duration b2 = fl x2" by blast
    have a1: "fle t0 t1" "cursorOk t1"
      unfolding t1_def x1(2) using cursor_advance0[OF ok0 x1(1)] by simp_all
    have a2: "fle t1 t2" unfolding t2_def x2(2) using cursor_advance0[OF a1(2) x2(1)] by simp
    have m2: "fmax t1 (Fin c2) = t1" using c(1) a1(1) by (intro fmax_absorb) (rule fle_trans)
    have "fle (Fin c3) t1" using c(2) a1(1) by (rule fle_trans)
    then have m3: "fmax t2 (Fin c3) = t2" using a2 by (intro fmax_absorb) (rule fle_trans)
    show ?thesis
      unfolding schedule_eq t0_def[symmetric] t1_def[symmetric] m2 t2_def[symmetric] m3
      by simp
  qed
  from 1 2 4 5 schedule_eq[of now b s] show ?thesis by blast
qed

theorem playback_cursor_witness:
  "cursorOk (nextAudioStartTimeRef engagedApp)
   \<and> list_all clockOk [SessionError, SessionClose]
   \<and> ''AAAAAA=='' \<noteq> [] \<and> outputAudioContextRef engagedApp
   \<and> decode ''AAAAAA=='' = Inr [0, 0, 0, 0]
   \<and> decodeAudioData [0, 0, 0, 0] 24000 1 = Inr (silence 2)
   \<and> isFinite (Fin 2) \<and> 0 < sampleRate_ab (silence 12000) \<and> 0 < sampleRate_ab (silence 6000)
   \<and> fle (Fin 2) (fmax (nextAudioStartTimeRef engagedApp) (Fin 2))
   \<and> fle (Fin 1) (fmax (nextAudioStartTimeRef engagedApp) (Fin 2))
   \<and> playInline 1 (Some ''AAAAAA=='') engagedApp = schedule 1 (silence 2) engagedApp
   \<and> started (schedule 1 (silence 3000) (schedule 2 (silence 6000)
         (schedule 2 (silence 12000) engagedApp)))
       = [(Fin 2, Fin (1/2)), (Fin (5/2), Fin (1/4)), (Fin (11/4), Fin (1/8))]"
proof -
  have h0: "cursorOk (nextAudioStartTimeRef engagedApp)"
    by (simp add: engagedApp_eq initialApp_def cursorOk_def isFinite_def)
  have h1: "outputAudioContextRef engagedApp" by (simp add: engagedApp_eq)
  have h2: "decodeAudioData [0, 0, 0, 0] 24000 1 = Inr (silence 2)"
    using decodeAudioData_sample by simp
  have h3: "list_all clockOk [SessionError, SessionClose]" by (simp add: clockOk_def)
  have c: "nextAudioStartTimeRef engagedApp = Fin 0" "started engagedApp = []"
    by (simp_all add: engagedApp_eq initialApp_def)
  have d: "duration (silence 12000) = Fin (1/2)" "duration (silence 6000) = Fin (1/4)"
    "duration (silence 3000) = Fin (1/8)"
    using fl_dyadic[of 1 "- 3"] pow2_1024_big by (simp_all add: duration_silence pow2_def)
  have s: "fadd (Fin 2) (Fin (1/2)) = Fin (5/2)" "fadd (Fin (5/2)) (Fin (1/4)) = Fin (11/4)"
    using fl_dyadic[of 5 "- 1"] fl_dyadic[of 11 "- 2"] pow2_1024_big
    by (simp_all add: pow2_def)
  have r: "sampleRate_ab (silence n) = 24000" for n by (simp add: silence_def)
  from playback_cursor [OF h0, where g = noMaps and e = SessionError
      and es = "[SessionError, SessionClose]"
      and now = 1 and b = "silence 2" and ?base64.0 = "''AAAAAA==''" and bytes = "[0, 0, 0, 0]"
      and ?b1.0 = "silence 12000" and ?b2.0 = "silence 6000" and ?b3.0 = "silence 3000"
      and ?c1.0 = 2 and ?c2.0 = 2 and ?c3.0 = 1]
    h0 h1 h2 h3 decode_sample
  show ?thesis by (simp add: c d s r isFinite_def del: fadd.simps)
qed

text \<open>
  Claim C5, counterexample. The cursor is at 0 and three buffers of 12000, 7200 and 9600
  samples (0.5 s, 0.3 s and 0.4 s) arrive at the clock reading \<open>t0 = 0.005333333333333333\<close>.
  They start at \<open>t0\<close>, at \<open>0.5053333333333333\<close> and at \<open>0.8053333333333332\<close>, while \<open>t0 + 0.8\<close>
  is \<open>0.8053333333333333\<close> in doubles and is no double at all as a real number.
\<close>

theorem playback_start_rounding_counterexample:
  "started (schedule (6148914691236517 / 1152921504606846976) (silence 9600)
     (schedule (6148914691236517 / 1152921504606846976) (silence 7200)
        (schedule (6148914691236517 / 1152921504606846976) (silence 12000) engagedApp)))
     = [(Fin (6148914691236517 / 1152921504606846976), Fin (1 / 2)),
        (Fin (4551638023395781 / 9007199254740992),
         Fin (5404319552844595 / 18014398509481984)),
        (Fin (3626898899909039 / 4503599627370496),
         Fin (3602879701896397 / 9007199254740992))]
   \<and> fadd (Fin (6148914691236517 / 1152921504606846976)) (fdiv (Fin 8) (Fin 10))
       = Fin (7253797799818079 / 9007199254740992)
   \<and> Fin (3626898899909039 / 4503599627370496)
       \<noteq> fadd (Fin (6148914691236517 / 1152921504606846976)) (fdiv (Fin 8) (Fin 10))
   \<and> Fin (3626898899909039 / 4503599627370496)
       \<noteq> Fin (6148914691236517 / 1152921504606846976 + 8 / 10)"
proof -
  have c: "nextAudioStartTimeRef engagedApp = Fin 0" "started engagedApp = []"
    by (simp_all add: engagedApp_eq initialApp_def)
  have d: "duration (silence 12000) = Fin (1 / 2)"
    "duration (silence 7200) = Fin (5404319552844595 / 18014398509481984)"
    "duration (silence 9600) = Fin (3602879701896397 / 9007199254740992)"
    unfolding duration_silence by (simp_all add: cursor_evals del: fdiv.simps)
  have m: "fmax (Fin 0) (Fin (6148914691236517 / 1152921504606846976))
             = Fin (6148914691236517 / 1152921504606846976)"
    "fmax (Fin (4551638023395781 / 9007199254740992))
          (Fin (6148914691236517 / 1152921504606846976))
             = Fin (4551638023395781 / 9007199254740992)"
    "fmax (Fin (3626898899909039 / 4503599627370496))
          (Fin (6148914691236517 / 1152921504606846976))
             = Fin (3626898899909039 / 4503599627370496)"
    by simp_all
  have 1: "started (schedule (6148914691236517 / 1152921504606846976) (silence 9600)
     (schedule (6148914691236517 / 1152921504606846976) (silence 7200)
        (schedule (6148914691236517 / 1152921504606846976) (silence 12000) engagedApp)))
     = [(Fin (6148914691236517 / 1152921504606846976), Fin (1 / 2)),
        (Fin (4551638023395781 / 9007199254740992),
         Fin (5404319552844595 / 18014398509481984)),
        (Fin (3626898899909039 / 4503599627370496),
         Fin (3602879701896397 / 9007199254740992))]"
    unfolding schedule_eq c d m cursor_evals by simp
  have 2: "fadd (Fin (6148914691236517 / 1152921504606846976)) (fdiv (Fin 8) (Fin 10))
       = Fin (7253797799818079 / 9007199254740992)"
    unfolding cursor_evals ..
  show ?thesis unfolding 2 using 1 by simp
qed

text \<open>
  Claim C8, as the code has it. The error callback only logs: a session error changes
  nothing, the conversational state included. The close callback sets the conversational
  state to IDLE and drops the analyser node, and the driver state stays as it is; only if
  the driver state is DROWSY and the conversational state was not IDLE does the escalation
  effect run at once: the driver state becomes ENGAGED and, with permissions and an AI
  client, a new session is started, which leaves the conversational state LISTENING and a
  new analyser node. Neither callback touches the playback cursor.
\<close>

theorem session_error_close:
  "step reg SessionError s = s
   \<and> nextAudioStartTimeRef (step reg SessionClose s) = nextAudioStartTimeRef s
   \<and> (sessionPromiseRef s \<longrightarrow>
        miraState (step reg SessionClose s)
          = (if driverState s = DROWSY \<and> miraState s \<noteq> IDLE \<and> permissionsGranted s \<and> aiRef s
             then LISTENING else IDLE)
        \<and> analyserNode (step reg SessionClose s)
          = (driverState s = DROWSY \<and> miraState s \<noteq> IDLE \<and> permissionsGranted s \<and> aiRef s)
        \<and> liveSessions (step reg SessionClose s)
          = (if driverState s = DROWSY \<and> miraState s \<noteq> IDLE \<and> permissionsGranted s \<and> aiRef s
             then Suc (liveSessions s) else liveSessions s)
        \<and> driverState (step reg SessionClose s)
          = (if driverState s = DROWSY \<and> miraState s \<noteq> IDLE then ENGAGED else driverState s))"
proof -
  have 1: "step reg SessionError s = s"
    by (simp add: step_def onerror_def runEffects_def)
  have 2: "nextAudioStartTimeRef (step reg SessionClose s) = nextAudioStartTimeRef s"
    by (simp add: step_def runEffects_frame onclose_def)
  have 3: "miraState (step reg SessionClose s)
          = (if driverState s = DROWSY \<and> miraState s \<noteq> IDLE \<and> permissionsGranted s \<and> aiRef s
             then LISTENING else IDLE)
        \<and> analyserNode (step reg SessionClose s)
          = (driverState s = DROWSY \<and> miraState s \<noteq> IDLE \<and> permissionsGranted s \<and> aiRef s)
        \<and> liveSessions (step reg SessionClose s)
          = (if driverState s = DROWSY \<and> miraState s \<noteq> IDLE \<and> permissionsGranted s \<and> aiRef s
             then Suc (liveSessions s) else liveSessions s)
        \<and> driverState (step reg SessionClose s)
          = (if driverState s = DROWSY \<and> miraState s \<noteq> IDLE then ENGAGED else driverState s)"
    if "sessionPromiseRef s"
    using that
    by (cases "miraState s = IDLE"; cases "driverState s")
       (simp_all add: step_def onclose_def runEffects_def escalationDeps_def expiryDeps_def
          escalationEffect_def startLiveSession_def Let_def)
  from 1 2 3 show ?thesis by blast
qed

theorem session_error_close_witness:
  "sessionPromiseRef speakingApp
   \<and> sessionPromiseRef (speakingApp\<lparr>driverState := DROWSY\<rparr>)
   \<and> step (mockFunctions noMaps) SessionError speakingApp = speakingApp
   \<and> miraState (step (mockFunctions noMaps) SessionClose speakingApp) = IDLE
   \<and> driverState (step (mockFunctions noMaps) SessionClose speakingApp) = ENGAGED
   \<and> nextAudioStartTimeRef (step (mockFunctions noMaps) SessionClose speakingApp)
       = nextAudioStartTimeRef speakingApp
   \<and> miraState (step (mockFunctions noMaps) SessionClose (speakingApp\<lparr>driverState := DROWSY\<rparr>))
       = LISTENING
   \<and> driverState (step (mockFunctions noMaps) SessionClose (speakingApp\<lparr>driverState := DROWSY\<rparr>))
       = ENGAGED
   \<and> liveSessions (step (mockFunctions noMaps) SessionClose (speakingApp\<lparr>driverState := DROWSY\<rparr>))
       = 2"
proof -
  have h: "sessionPromiseRef speakingApp" "driverState speakingApp = ENGAGED"
    "miraState speakingApp = SPEAKING" "permissionsGranted speakingApp" "aiRef speakingApp"
    "liveSessions speakingApp = 1"
    by (simp_all add: speakingApp_eq engagedApp_eq initialApp_def)
  from session_error_close [of "mockFunctions noMaps" speakingApp]
    session_error_close [of "mockFunctions noMaps" "speakingApp\<lparr>driverState := DROWSY\<rparr>"] h
  show ?thesis by simp
qed

text \<open>
  Claim C8, counterexample. After a message with audio the conversational state is SPEAKING
  and the cursor is at \<open>1.0000833333333334\<close>. A session error leaves both as they are, and a
  session close leaves the cursor there.
\<close>

theorem session_error_close_counterexample:
  "miraState (step (mockFunctions noMaps) SessionError speakingApp) = SPEAKING
   \<and> nextAudioStartTimeRef (step (mockFunctions noMaps) SessionError speakingApp)
       = Fin (1125993731834861 / 1125899906842624)
   \<and> nextAudioStartTimeRef (step (mockFunctions noMaps) SessionClose speakingApp)
       = Fin (1125993731834861 / 1125899906842624)"
proof -
  have e: "step (mockFunctions noMaps) SessionError speakingApp = speakingApp"
    by (simp add: step_def onerror_def runEffects_def)
  have c: "nextAudioStartTimeRef (step (mockFunctions noMaps) SessionClose speakingApp)
             = nextAudioStartTimeRef speakingApp"
    by (simp add: step_def onclose_def runEffects_frame)
  show ?thesis unfolding e c by (simp add: speakingApp_eq)
qed

end
